theory Spec2Isabelle
  imports Main "HOL-Library.Multiset"
begin

section \<open>Strings\<close>

text \<open>
  A JavaScript string is modelled as a \<open>string\<close>, one \<open>char\<close> per code unit. The model
  is exact for ASCII text: \<open>toLowerCase\<close> and the \<open>i\<close> flag of a regular expression fold
  \<open>A\<close>..\<open>Z\<close> onto \<open>a\<close>..\<open>z\<close>, and the white space of \<open>\s\<close> and \<open>trim\<close> is TAB, LF, VT, FF,
  CR and SPACE. A \<open>char\<close> above 127 is a caseless character that is not white space. The
  Japanese literals of the source are kept as their UTF-8 bytes.
\<close>

definition toLowerChar :: "char \<Rightarrow> char" where
  "toLowerChar c =
     (case map_of (zip ''ABCDEFGHIJKLMNOPQRSTUVWXYZ'' ''abcdefghijklmnopqrstuvwxyz'') c of
        Some l \<Rightarrow> l
      | None \<Rightarrow> c)"

definition toLowerCase :: "string \<Rightarrow> string" where
  "toLowerCase s = map toLowerChar s"

definition isSpace :: "char \<Rightarrow> bool" where
  "isSpace c = (c \<in> set [CHR 0x09, CHR 0x0A, CHR 0x0B, CHR 0x0C, CHR 0x0D, CHR '' ''])"

definition isDigit :: "char \<Rightarrow> bool" where
  "isDigit c = (c \<in> set ''0123456789'')"

definition isUpperAZ :: "char \<Rightarrow> bool" where
  "isUpperAZ c = (c \<in> set ''ABCDEFGHIJKLMNOPQRSTUVWXYZ'')"

text \<open>\<open>s.startsWith(p)\<close>; the building block of the substring functions below.\<close>

fun startsWith :: "string \<Rightarrow> string \<Rightarrow> bool" where
  "startsWith s [] = True"
| "startsWith [] (p # ps) = False"
| "startsWith (c # s) (p # ps) = (c = p \<and> startsWith s ps)"

text \<open>\<open>s.includes(p)\<close>.\<close>

fun js_includes :: "string \<Rightarrow> string \<Rightarrow> bool" where
  "js_includes [] p = (p = [])"
| "js_includes (c # s) p = (startsWith (c # s) p \<or> js_includes s p)"

text \<open>\<open>s.indexOf(p)\<close>: the first position where \<open>p\<close> starts, or \<open>-1\<close>.\<close>

fun indexOfFrom :: "nat \<Rightarrow> string \<Rightarrow> string \<Rightarrow> int" where
  "indexOfFrom i [] p = (if p = [] then int i else - 1)"
| "indexOfFrom i (c # s) p =
     (if startsWith (c # s) p then int i else indexOfFrom (Suc i) s p)"

definition indexOf :: "string \<Rightarrow> string \<Rightarrow> int" where
  "indexOf s p = indexOfFrom 0 s p"

text \<open>\<open>s.substring(start, end)\<close>: both indices are clamped to \<open>[0, length]\<close> and swapped
  when they come in the wrong order.\<close>

definition substring :: "string \<Rightarrow> int \<Rightarrow> int \<Rightarrow> string" where
  "substring s start end =
     (let len = int (length s);
          a = max 0 (min start len);
          b = max 0 (min end len);
          lo = nat (min a b);
          hi = nat (max a b)
      in take (hi - lo) (drop lo s))"

text \<open>\<open>s.trim()\<close>.\<close>

definition trim :: "string \<Rightarrow> string" where
  "trim s = rev (dropWhile isSpace (rev (dropWhile isSpace s)))"

text \<open>\<open>xs.join(sep)\<close>.\<close>

fun join :: "string \<Rightarrow> string list \<Rightarrow> string" where
  "join sep [] = []"
| "join sep [x] = x"
| "join sep (x # y # ys) = x @ sep @ join sep (y # ys)"

section \<open>Regular expressions built from an escaped term\<close>

text \<open>
  \<open>escapeRegex\<close> puts a backslash before every syntax character of a pattern, so
  \<open>new RegExp(escapeRegex(term), 'gi')\<close> matches the characters of \<open>term\<close> literally,
  ignoring case, from left to right without overlap. The two uses of such a pattern are
  modelled directly on the term.
\<close>

text \<open>Whether the pattern matches at the start of \<open>s\<close>, character by character,
  two characters being equal under the \<open>i\<close> flag when they fold to the same one.\<close>

fun startsWithCI :: "string \<Rightarrow> string \<Rightarrow> bool" where
  "startsWithCI s [] = True"
| "startsWithCI [] (p # ps) = False"
| "startsWithCI (c # s) (p # ps) = (toLowerChar c = toLowerChar p \<and> startsWithCI s ps)"

text \<open>\<open>(s.match(new RegExp(escapeRegex(p), 'gi')) || []).length\<close>. The empty pattern
  matches once at every position, the end included.\<close>

function countMatches :: "string \<Rightarrow> string \<Rightarrow> nat" where
  "countMatches [] p = (if p = [] then 1 else 0)"
| "countMatches (c # s) p =
     (if p = [] then Suc (Suc (length s))
      else if startsWithCI (c # s) p then Suc (countMatches (drop (length p) (c # s)) p)
      else countMatches s p)"
  by pat_completeness auto
termination
  by (relation "measure (\<lambda>(s, p). length s)") auto

definition spanOpen :: string where
  "spanOpen = ''<span class=\"highlight\">''"

definition spanClose :: string where
  "spanClose = ''</span>''"

text \<open>\<open>s.replace(new RegExp(`(${escapeRegex(p)})`, 'gi'),
  '<span class="highlight">$1</span>')\<close>: every match is put back as it was found, between
  the two tags.\<close>

function wrapMatches :: "string \<Rightarrow> string \<Rightarrow> string" where
  "wrapMatches [] p = (if p = [] then spanOpen @ spanClose else [])"
| "wrapMatches (c # s) p =
     (if p = [] then spanOpen @ spanClose @ c # wrapMatches s p
      else if startsWithCI (c # s) p
        then spanOpen @ take (length p) (c # s) @ spanClose
               @ wrapMatches (drop (length p) (c # s)) p
      else c # wrapMatches s p)"
  by pat_completeness auto
termination
  by (relation "measure (\<lambda>(s, p). length s)") auto

text \<open>The separator \<open>/\s+OR\s+/i\<close> tried at the start of \<open>s\<close>: the length of the match.
  Both \<open>\s+\<close> are greedy, and giving back white space never helps, the next character
  of the pattern not being white space.\<close>

definition matchOrSep :: "string \<Rightarrow> nat option" where
  "matchOrSep s =
     (let n1 = length (takeWhile isSpace s) in
      if n1 = 0 then None
      else case drop n1 s of
             o1 # r1 # rest \<Rightarrow>
               if toLowerChar o1 = CHR ''o'' \<and> toLowerChar r1 = CHR ''r''
               then (let n2 = length (takeWhile isSpace rest) in
                     if n2 = 0 then None else Some (n1 + 2 + n2))
               else None
           | _ \<Rightarrow> None)"

text \<open>The separator \<open>/\s+/\<close> tried at the start of \<open>s\<close>.\<close>

definition matchWsSep :: "string \<Rightarrow> nat option" where
  "matchWsSep s =
     (let n = length (takeWhile isSpace s) in if n = 0 then None else Some n)"

text \<open>\<open>s.split(separator)\<close> for a separator without capture groups that does not match
  the empty string: the separator is tried at every position from left to right;
  \<open>piece\<close> holds the characters since the end of the last separator.\<close>

function splitRegex :: "(string \<Rightarrow> nat option) \<Rightarrow> string \<Rightarrow> string \<Rightarrow> string list" where
  "splitRegex m piece [] = [piece]"
| "splitRegex m piece (c # s) =
     (case m (c # s) of
        None \<Rightarrow> splitRegex m (piece @ [c]) s
      | Some n \<Rightarrow>
          if n = 0 then splitRegex m (piece @ [c]) s
          else piece # splitRegex m [] (drop n (c # s)))"
  by pat_completeness auto
termination
  by (relation "measure (\<lambda>(m, piece, s). length s)") auto

section \<open>Synonym expansion and query parsing\<close>

text \<open>The synonym dictionary, in the order in which \<open>Object.entries\<close> lists it.\<close>

type_synonym synonymMap = "(string \<times> string list) list"

text \<open>\<open>Set.prototype.add\<close> on a set kept in insertion order.\<close>

definition set_add :: "string list \<Rightarrow> string \<Rightarrow> string list" where
  "set_add xs x = (if x \<in> set xs then xs else xs @ [x])"

text \<open>\<open>Array.from(new Set(xs))\<close>: the first occurrence of each element stays.\<close>

definition dedup :: "string list \<Rightarrow> string list" where
  "dedup xs = foldl set_add [] xs"

text \<open>The loop of \<open>expandSynonyms\<close> over the entries. The source comments its two
  tests as "when the query is contained in the key of the dictionary" and "when the query
  is contained in one of the synonyms"; both tests are \<open>query.toLowerCase().includes(...)\<close>,
  with the key and with a synonym as the argument.\<close>

fun expandEntries :: "string \<Rightarrow> synonymMap \<Rightarrow> string list \<Rightarrow> string list" where
  "expandEntries query [] terms = terms"
| "expandEntries query ((key, syns) # rest) terms =
     (let keyLower = toLowerCase key;
          synonymsLower = map toLowerCase syns;
          terms1 = (if js_includes (toLowerCase query) keyLower
                    then foldl set_add (set_add terms keyLower) synonymsLower
                    else terms);
          terms2 = (if list_ex (\<lambda>s. js_includes (toLowerCase query) s) synonymsLower
                    then foldl set_add (set_add terms1 keyLower) synonymsLower
                    else terms1)
      in expandEntries query rest terms2)"

definition expandSynonyms :: "synonymMap \<Rightarrow> string \<Rightarrow> string list" where
  "expandSynonyms syn query = expandEntries query syn [toLowerCase query]"

datatype ParsedQuery =
    OR_mode (groups : "string list list") (originalTerms : "string list")
  | AND_mode (terms : "string list") (originalTerms : "string list")

definition parseSearchQuery :: "synonymMap \<Rightarrow> string \<Rightarrow> ParsedQuery" where
  "parseSearchQuery syn query =
     (let orGroups = splitRegex matchOrSep [] query in
      if length orGroups > 1
      then OR_mode (map (\<lambda>group. expandSynonyms syn (trim group)) orGroups)
                   (map trim orGroups)
      else (let andTerms = splitRegex matchWsSep [] (trim query);
                expandedTerms = concat (map (expandSynonyms syn) andTerms)
            in AND_mode (dedup expandedTerms) andTerms))"

section \<open>Highlighting\<close>

text \<open>\<open>terms.sort((a, b) => b.length - a.length)\<close>: a stable sort (ECMAScript 2019) by
  decreasing length. It sorts the array it is called on.\<close>

definition sortTerms :: "string list \<Rightarrow> string list" where
  "sortTerms ts = sort_key (\<lambda>t. - int (length t)) ts"

fun highlightLoop :: "string \<Rightarrow> string list \<Rightarrow> string" where
  "highlightLoop result [] = result"
| "highlightLoop result (term # rest) =
     (if length term < 2 then highlightLoop result rest
      else highlightLoop (wrapMatches result term) rest)"

text \<open>\<open>highlightText(text, terms)\<close> returns the marked text; the second component is the
  caller's \<open>terms\<close> array as the call leaves it.\<close>

definition highlightText :: "string \<Rightarrow> string list \<Rightarrow> string \<times> string list" where
  "highlightText text ts =
     (if text = [] \<or> ts = [] then (text, ts)
      else (let sortedTerms = sortTerms ts in (highlightLoop text sortedTerms, sortedTerms)))"

section \<open>The corpus\<close>

record articleParagraph =
  paragraphNumber :: string
  paragraphContent :: string

text \<open>\<open>articleNumber\<close> is \<open>None\<close> when the JSON object has no such property.\<close>

record article =
  articleNumber :: "string option"
  title :: string
  content :: string
  paragraphs :: "articleParagraph list"

record law =
  lawId :: string
  lawName :: string
  lawType :: string
  articles :: "article list"

record pdfRecord =
  pdf_id :: string
  pdf_title :: string
  pdf_content :: string
  pdf_keywords :: "string list option"
  fullTextLength :: "nat option"

record pdfMeta =
  meta_id :: string
  meta_url :: "string option"

record pdfMetadata =
  md_details :: "pdfMeta list option"
  md_appendices :: "pdfMeta list option"

record pdfContent =
  standards :: "pdfRecord list"
  details :: "pdfRecord list"
  appendices :: "pdfRecord list"
  other :: "pdfRecord list"

record engine =
  laws :: "law list"
  synonyms :: synonymMap
  pdfMetadata :: pdfMetadata
  pdfContent :: pdfContent
  isReady :: bool

text \<open>The engine as the constructor leaves it.\<close>

definition newEngine :: engine where
  "newEngine =
     \<lparr>laws = [], synonyms = [],
      pdfMetadata = \<lparr>md_details = Some [], md_appendices = Some []\<rparr>,
      pdfContent = \<lparr>standards = [], details = [], appendices = [], other = []\<rparr>,
      isReady = False\<rparr>"

section \<open>Loading\<close>

text \<open>
  What one of the four requests of \<open>loadData\<close> comes to: \<open>fetch\<close> rejects, or it
  resolves to a response whose \<open>json()\<close> rejects, or the document is there.
\<close>

datatype 'a fetched = FetchRejected | JsonRejected | Document 'a

record lawsDocument =
  doc_laws :: "law list"

record pdfData =
  data_standards :: "pdfRecord list option"
  data_details :: "pdfRecord list option"
  data_appendices :: "pdfRecord list option"
  data_other :: "pdfRecord list option"

text \<open>\<open>x || []\<close>.\<close>

definition orEmpty :: "'a list option \<Rightarrow> 'a list" where
  "orEmpty x = (case x of None \<Rightarrow> [] | Some xs \<Rightarrow> xs)"

definition isRejected :: "'a fetched \<Rightarrow> bool" where
  "isRejected f = (case f of FetchRejected \<Rightarrow> True | _ \<Rightarrow> False)"

text \<open>
  \<open>loadData\<close>: \<open>Promise.all\<close> over the four \<open>fetch\<close> calls throws before any assignment
  when one of them rejects; the four \<open>json()\<close> calls are then awaited one after the
  other, each result assigned to its field before the next is awaited. The \<open>catch\<close>
  returns \<open>false\<close> and undoes nothing.
\<close>

definition loadData ::
  "engine \<Rightarrow> lawsDocument fetched \<Rightarrow> synonymMap fetched \<Rightarrow> pdfMetadata fetched
     \<Rightarrow> pdfData fetched \<Rightarrow> bool \<times> engine" where
  "loadData e lawsResponse synonymsResponse pdfMetadataResponse pdfContentResponse =
     (if isRejected lawsResponse \<or> isRejected synonymsResponse
         \<or> isRejected pdfMetadataResponse \<or> isRejected pdfContentResponse
      then (False, e)
      else case lawsResponse of
        Document lawsDoc \<Rightarrow>
          (let e1 = e\<lparr>laws := doc_laws lawsDoc\<rparr> in
           case synonymsResponse of
             Document syn \<Rightarrow>
               (let e2 = e1\<lparr>synonyms := syn\<rparr> in
                case pdfMetadataResponse of
                  Document md \<Rightarrow>
                    (let e3 = e2\<lparr>pdfMetadata := md\<rparr> in
                     case pdfContentResponse of
                       Document pdfData \<Rightarrow>
                         (True,
                          e3\<lparr>pdfContent :=
                                \<lparr>standards = orEmpty (data_standards pdfData),
                                 details = orEmpty (data_details pdfData),
                                 appendices = orEmpty (data_appendices pdfData),
                                 other = orEmpty (data_other pdfData)\<rparr>,
                              isReady := True\<rparr>)
                     | _ \<Rightarrow> (False, e3))
                | _ \<Rightarrow> (False, e2))
           | _ \<Rightarrow> (False, e1))
      | _ \<Rightarrow> (False, e))"

section \<open>Scoring\<close>

fun scoreLoop :: "article \<Rightarrow> string \<Rightarrow> int \<Rightarrow> string list \<Rightarrow> int" where
  "scoreLoop a text score [] = score"
| "scoreLoop a text score (term # rest) =
     (let termLower = toLowerCase term;
          matches = countMatches text termLower;
          score1 = score + int matches * 15;
          score2 = (if js_includes (toLowerCase (title a)) termLower
                    then score1 + 80 else score1);
          score3 = (case articleNumber a of
                      None \<Rightarrow> score2
                    | Some number \<Rightarrow>
                        if number \<noteq> [] \<and> js_includes (toLowerCase number) termLower
                        then score2 + 60 else score2)
      in scoreLoop a text score3 rest)"

definition calculateScore :: "article \<Rightarrow> string \<Rightarrow> string list \<Rightarrow> int" where
  "calculateScore a query ts =
     (let text = toLowerCase (title a @ '' '' @ content a);
          queryLower = toLowerCase query;
          score = (if js_includes text queryLower then 150 else 0)
      in scoreLoop a text score ts)"

text \<open>The older copy of the engine under \<open>docs/js\<close> scores with smaller constants and
  without the bonus for the article number.\<close>

fun docs_scoreLoop :: "article \<Rightarrow> string \<Rightarrow> int \<Rightarrow> string list \<Rightarrow> int" where
  "docs_scoreLoop a text score [] = score"
| "docs_scoreLoop a text score (term # rest) =
     (let termLower = toLowerCase term;
          matches = countMatches text termLower;
          score1 = score + int matches * 10;
          score2 = (if js_includes (toLowerCase (title a)) termLower
                    then score1 + 50 else score1)
      in docs_scoreLoop a text score2 rest)"

definition docs_calculateScore :: "article \<Rightarrow> string \<Rightarrow> string list \<Rightarrow> int" where
  "docs_calculateScore a query ts =
     (let text = toLowerCase (title a @ '' '' @ content a);
          queryLower = toLowerCase query;
          score = (if js_includes text queryLower then 100 else 0)
      in docs_scoreLoop a text score ts)"

section \<open>PDF display names and links\<close>

text \<open>The labels \<open>saimoku kokuji dai\<close> (detail notice, article), \<open>jou\<close> (the article
  counter), \<open>betten\<close> (appendix) and \<open>hoan kijun dai\<close> (safety standard, article), as the
  UTF-8 bytes of the source's literals.\<close>

definition label_S :: string where
  "label_S = [CHR 0xE7, CHR 0xB4, CHR 0xB0, CHR 0xE7, CHR 0x9B, CHR 0xAE, CHR 0xE5, CHR 0x91,
              CHR 0x8A, CHR 0xE7, CHR 0xA4, CHR 0xBA, CHR 0x20, CHR 0xE7, CHR 0xAC, CHR 0xAC]"

definition label_jou :: string where
  "label_jou = [CHR 0xE6, CHR 0x9D, CHR 0xA1]"

definition label_B :: string where
  "label_B = [CHR 0xE5, CHR 0x88, CHR 0xA5, CHR 0xE6, CHR 0xB7, CHR 0xBB]"

definition label_H :: string where
  "label_H = [CHR 0xE4, CHR 0xBF, CHR 0x9D, CHR 0xE5, CHR 0xAE, CHR 0x89, CHR 0xE5, CHR 0x9F,
              CHR 0xBA, CHR 0xE6, CHR 0xBA, CHR 0x96, CHR 0x20, CHR 0xE7, CHR 0xAC, CHR 0xAC]"

text \<open>\<open>pdfId.match(/^([A-Z])(\d+)(-\d+)?$/)\<close>: the three groups, the third one empty
  when it takes no part in the match.\<close>

definition matchPdfId :: "string \<Rightarrow> (char \<times> string \<times> string) option" where
  "matchPdfId pdfId =
     (case pdfId of
        [] \<Rightarrow> None
      | c # rest \<Rightarrow>
          if \<not> isUpperAZ c then None
          else (let ds = takeWhile isDigit rest; r = dropWhile isDigit rest in
                if ds = [] then None
                else case r of
                       [] \<Rightarrow> Some (c, ds, [])
                     | h # ds2 \<Rightarrow>
                         if h = CHR ''-'' \<and> ds2 \<noteq> [] \<and> list_all isDigit ds2
                         then Some (c, ds, r) else None))"

definition digitValue :: "char \<Rightarrow> int" where
  "digitValue d = int (of_char d) - 48"

text \<open>The integer that a run of decimal digits denotes.\<close>

definition digitsValue :: "string \<Rightarrow> int" where
  "digitsValue ds = foldl (\<lambda>acc d. acc * 10 + digitValue d) 0 ds"

text \<open>A JavaScript number that holds an integer that is not negative, or \<open>Infinity\<close>.\<close>

datatype jsNumber = Finite int | PosInfinity

text \<open>The number of binary digits of a positive integer.\<close>

function bitLength :: "int \<Rightarrow> nat" where
  "bitLength n = (if n \<le> 0 then 0 else Suc (bitLength (n div 2)))"
  by pat_completeness auto
termination
  by (relation "measure nat") auto

declare bitLength.simps [simp del]

text \<open>The double nearest to an integer that is not negative: below \<open>2^53\<close> the integer
  itself; from there on its 53 leading binary digits, rounded to nearest with ties to the
  even significand, and \<open>Infinity\<close> from \<open>2^1024\<close> on.\<close>

definition toDouble :: "int \<Rightarrow> jsNumber" where
  "toDouble n =
     (if n < 2 ^ 53 then Finite n
      else (let e = bitLength n - 53;
                q = n div 2 ^ e;
                r = n mod 2 ^ e;
                q' = (if 2 ^ e < 2 * r \<or> (2 * r = 2 ^ e \<and> odd q) then q + 1 else q);
                v = q' * 2 ^ e
            in if 2 ^ 1024 \<le> v then PosInfinity else Finite v))"

text \<open>\<open>parseInt(digits, 10)\<close> on a run of decimal digits: the double nearest to the
  integer the digits denote. (From the 21st significant digit on, ECMAScript lets an
  implementation read a digit as \<open>0\<close>; the model reads every digit.)\<close>

definition parseInt10 :: "string \<Rightarrow> jsNumber" where
  "parseInt10 ds = toDouble (digitsValue ds)"

text \<open>The decimal digits of an integer that is not negative.\<close>

function decimalString :: "int \<Rightarrow> string" where
  "decimalString n =
     (if n < 10 then [''0123456789'' ! nat n]
      else decimalString (n div 10) @ [''0123456789'' ! nat (n mod 10)])"
  by pat_completeness auto
termination
  by (relation "measure nat") auto

declare decimalString.simps [simp del]

text \<open>The integer with the fewest significant digits that \<open>toDouble\<close> takes to the double
  \<open>x\<close>, looked for among the multiples of \<open>10^m\<close>, then of \<open>10^(m-1)\<close>, and so on: of
  the two multiples around \<open>x\<close> the one that reads back as \<open>x\<close>, the nearer one when both
  do, the one with the even last digit when both are as near.\<close>

fun shortest :: "int \<Rightarrow> nat \<Rightarrow> int" where
  "shortest x 0 = x"
| "shortest x (Suc m) =
     (let p = 10 ^ Suc m;
          lo = (x div p) * p;
          hi = lo + p;
          okLo = (toDouble lo = Finite x);
          okHi = (toDouble hi = Finite x)
      in if okLo \<and> okHi then
           (if x - lo < hi - x then lo
            else if hi - x < x - lo then hi
            else if even (x div p) then lo else hi)
         else if okLo then lo
         else if okHi then hi
         else shortest x m)"

text \<open>A number inside a template literal (\<open>Number::toString\<close>): with \<open>v\<close> the shortest
  integer that reads back as the number, the digits of \<open>v\<close> when there are at most 21 of
  them, else its significant digits with a point after the first, \<open>e+\<close> and the exponent.\<close>

definition numberToString :: "jsNumber \<Rightarrow> string" where
  "numberToString number =
     (case number of
        PosInfinity \<Rightarrow> ''Infinity''
      | Finite x \<Rightarrow>
          (let v = shortest x (length (decimalString x) - 1);
               n = length (decimalString v)
           in if n \<le> 21 then decimalString v
              else (case rev (dropWhile (\<lambda>c. c = CHR ''0'') (rev (decimalString v))) of
                      [] \<Rightarrow> []
                    | d # ds \<Rightarrow>
                        d # (if ds = [] then [] else ''.'' @ ds) @ ''e+''
                          @ decimalString (int n - 1))))"

definition formatPDFDisplayName :: "string \<Rightarrow> string" where
  "formatPDFDisplayName pdfId =
     (case matchPdfId pdfId of
        None \<Rightarrow> pdfId
      | Some (prefix, digits, suffix) \<Rightarrow>
          (let number = parseInt10 digits in
           if prefix = CHR ''S'' then label_S @ numberToString number @ label_jou @ suffix
           else if prefix = CHR ''B'' then label_B @ numberToString number @ suffix
           else if prefix = CHR ''H'' then label_H @ numberToString number @ label_jou @ suffix
           else pdfId))"

text \<open>\<open>list?.find(item => item.id === pdfId)\<close> followed by \<open>meta && meta.url\<close>.\<close>

definition findUrl :: "pdfMeta list option \<Rightarrow> string \<Rightarrow> string option" where
  "findUrl metas pdfId =
     (case metas of
        None \<Rightarrow> None
      | Some items \<Rightarrow>
          (case find (\<lambda>item. meta_id item = pdfId) items of
             None \<Rightarrow> None
           | Some meta \<Rightarrow>
               (case meta_url meta of
                  None \<Rightarrow> None
                | Some url \<Rightarrow> if url = [] then None else Some url)))"

definition getPDFUrl :: "pdfMetadata \<Rightarrow> string \<Rightarrow> string option" where
  "getPDFUrl md pdfId =
     (case findUrl (md_details md) pdfId of
        Some url \<Rightarrow> Some url
      | None \<Rightarrow> findUrl (md_appendices md) pdfId)"

section \<open>Matching a record against the parsed query\<close>

text \<open>The OR loop over \<open>parsedQuery.groups\<close>: it breaks at the first group of which some
  term is in the text.\<close>

fun firstMatchingGroup :: "string \<Rightarrow> string list list \<Rightarrow> string list option" where
  "firstMatchingGroup text [] = None"
| "firstMatchingGroup text (grp # rest) =
     (if list_ex (\<lambda>term. js_includes text (toLowerCase term)) grp then Some grp
      else firstMatchingGroup text rest)"

text \<open>
  The block that \<open>search\<close> and \<open>searchPDFs\<close> both run on the lower-cased search text of a
  record; it gives \<open>matches\<close> and \<open>matchedTerms\<close>. In OR mode \<open>matchedTerms\<close> is the new
  array that \<open>concat\<close> returns, in AND mode it is the array \<open>parsedQuery.terms\<close> itself.
\<close>

definition matchQuery :: "synonymMap \<Rightarrow> ParsedQuery \<Rightarrow> string \<Rightarrow> bool \<times> string list" where
  "matchQuery syn parsedQuery text =
     (case parsedQuery of
        OR_mode gs ots \<Rightarrow>
          (case firstMatchingGroup text gs of
             None \<Rightarrow> (False, [])
           | Some grp \<Rightarrow> (True, [] @ grp))
      | AND_mode ts ots \<Rightarrow>
          (let matches =
                 list_all (\<lambda>originalTerm.
                    list_ex (\<lambda>s. js_includes text (toLowerCase s))
                      (expandSynonyms syn originalTerm)) ots
           in (matches, if matches then ts else [])))"

text \<open>The parsed query after \<open>highlightText\<close> has sorted \<open>matchedTerms\<close> in place: in AND
  mode the sorted array is \<open>parsedQuery.terms\<close>, in OR mode the groups are untouched.\<close>

definition afterHighlight :: "ParsedQuery \<Rightarrow> string list \<Rightarrow> ParsedQuery" where
  "afterHighlight parsedQuery matchedTerms =
     (case parsedQuery of
        OR_mode gs ots \<Rightarrow> OR_mode gs ots
      | AND_mode ts ots \<Rightarrow> AND_mode matchedTerms ots)"

section \<open>Searching the articles\<close>

record filters =
  f_law :: bool
  f_ordinance :: bool

text \<open>The two law types \<open>houritsu\<close> (statute) and \<open>shourei\<close> (ordinance).\<close>

definition lawType_law :: string where
  "lawType_law = [CHR 0xE6, CHR 0xB3, CHR 0x95, CHR 0xE5, CHR 0xBE, CHR 0x8B]"

definition lawType_ordinance :: string where
  "lawType_ordinance = [CHR 0xE7, CHR 0x9C, CHR 0x81, CHR 0xE4, CHR 0xBB, CHR 0xA4]"

record articleResult =
  r_lawId :: string
  r_lawName :: string
  r_lawType :: string
  r_articleNumber :: "string option"
  r_title :: string
  r_content :: string
  r_paragraphs :: "articleParagraph list"
  r_score :: int
  r_highlightedTitle :: string
  r_highlightedContent :: string

text \<open>The body of the loop over the articles of a law: the result pushed, if any, and the
  parsed query as the two \<open>highlightText\<close> calls leave it.\<close>

definition processArticle ::
  "synonymMap \<Rightarrow> string \<Rightarrow> law \<Rightarrow> ParsedQuery \<Rightarrow> article
     \<Rightarrow> articleResult option \<times> ParsedQuery" where
  "processArticle syn query l parsedQuery a =
     (let text = toLowerCase (title a @ '' '' @ content a);
          (matches, matchedTerms) = matchQuery syn parsedQuery text
      in if matches then
           (let score = calculateScore a query matchedTerms;
                (hTitle, terms1) = highlightText (title a) matchedTerms;
                (hContent, terms2) =
                   highlightText
                     (substring (content a) 0 300
                        @ (if length (content a) > 300 then ''...'' else []))
                     terms1
            in (Some \<lparr>r_lawId = lawId l, r_lawName = lawName l, r_lawType = lawType l,
                       r_articleNumber = articleNumber a, r_title = title a,
                       r_content = content a, r_paragraphs = paragraphs a,
                       r_score = score, r_highlightedTitle = hTitle,
                       r_highlightedContent = hContent\<rparr>,
                afterHighlight parsedQuery terms2))
         else (None, parsedQuery))"

fun scanArticles ::
  "synonymMap \<Rightarrow> string \<Rightarrow> law \<Rightarrow> ParsedQuery \<Rightarrow> article list
     \<Rightarrow> articleResult list \<times> ParsedQuery" where
  "scanArticles syn query l parsedQuery [] = ([], parsedQuery)"
| "scanArticles syn query l parsedQuery (a # rest) =
     (case processArticle syn query l parsedQuery a of
        (r, pq1) \<Rightarrow>
          (case scanArticles syn query l pq1 rest of
             (rs, pq2) \<Rightarrow> ((case r of None \<Rightarrow> rs | Some x \<Rightarrow> x # rs), pq2)))"

fun scanLaws ::
  "synonymMap \<Rightarrow> string \<Rightarrow> filters \<Rightarrow> ParsedQuery \<Rightarrow> law list
     \<Rightarrow> articleResult list \<times> ParsedQuery" where
  "scanLaws syn query fs parsedQuery [] = ([], parsedQuery)"
| "scanLaws syn query fs parsedQuery (l # rest) =
     (if lawType l = lawType_law \<and> \<not> f_law fs then scanLaws syn query fs parsedQuery rest
      else if lawType l = lawType_ordinance \<and> \<not> f_ordinance fs
        then scanLaws syn query fs parsedQuery rest
      else (case scanArticles syn query l parsedQuery (articles l) of
              (rs, pq1) \<Rightarrow>
                (case scanLaws syn query fs pq1 rest of
                   (rs', pq2) \<Rightarrow> (rs @ rs', pq2))))"

section \<open>Searching the PDF records\<close>

datatype pdfType = Standard | Detail | Appendix | Other

text \<open>The category labels \<open>hoan kijun\<close>, \<open>saimoku kokuji\<close>, \<open>betten\<close> and \<open>sonota\<close>.\<close>

definition typeLabel :: "pdfType \<Rightarrow> string" where
  "typeLabel t =
     (case t of
        Standard \<Rightarrow> [CHR 0xE4, CHR 0xBF, CHR 0x9D, CHR 0xE5, CHR 0xAE, CHR 0x89,
                     CHR 0xE5, CHR 0x9F, CHR 0xBA, CHR 0xE6, CHR 0xBA, CHR 0x96]
      | Detail \<Rightarrow> [CHR 0xE7, CHR 0xB4, CHR 0xB0, CHR 0xE7, CHR 0x9B, CHR 0xAE,
                   CHR 0xE5, CHR 0x91, CHR 0x8A, CHR 0xE7, CHR 0xA4, CHR 0xBA]
      | Appendix \<Rightarrow> [CHR 0xE5, CHR 0x88, CHR 0xA5, CHR 0xE6, CHR 0xB7, CHR 0xBB]
      | Other \<Rightarrow> [CHR 0xE3, CHR 0x81, CHR 0x9D, CHR 0xE3, CHR 0x81, CHR 0xAE,
                  CHR 0xE4, CHR 0xBB, CHR 0x96])"

record pdfResult =
  p_type :: pdfType
  p_typeLabel :: string
  p_id :: string
  p_displayName :: string
  p_title :: string
  p_content :: string
  p_fullContent :: string
  p_keywords :: "string list"
  p_fullTextLength :: nat
  p_score :: int
  p_highlightedTitle :: string
  p_highlightedContent :: string
  p_url :: "string option"

text \<open>The search text of a PDF record.\<close>

definition pdfSearchText :: "pdfRecord \<Rightarrow> string" where
  "pdfSearchText pdf =
     toLowerCase (pdf_title pdf @ '' '' @ pdf_content pdf @ '' ''
                    @ join '' '' (orEmpty (pdf_keywords pdf)))"

fun pdfScoreLoop :: "pdfRecord \<Rightarrow> string \<Rightarrow> int \<Rightarrow> string list \<Rightarrow> int" where
  "pdfScoreLoop pdf searchText score [] = score"
| "pdfScoreLoop pdf searchText score (term # rest) =
     (let termLower = toLowerCase term in
      if js_includes searchText termLower then
        (let termMatches = countMatches searchText termLower;
             score1 = score + int termMatches * 10;
             score2 = (if js_includes (toLowerCase (pdf_title pdf)) termLower
                       then score1 + 50 else score1);
             score3 = (case pdf_keywords pdf of
                         None \<Rightarrow> score2
                       | Some kws \<Rightarrow>
                           if list_ex (\<lambda>kw. js_includes (toLowerCase kw) termLower) kws
                           then score2 + 30 else score2)
         in pdfScoreLoop pdf searchText score3 rest)
      else pdfScoreLoop pdf searchText score rest)"

text \<open>The loop that looks for a term to build the preview around; \<open>preview\<close> is the value
  the variable has when the loop starts.\<close>

fun previewLoop :: "string \<Rightarrow> string \<Rightarrow> string list \<Rightarrow> string" where
  "previewLoop c preview [] = preview"
| "previewLoop c preview (term # rest) =
     (let index = indexOf (toLowerCase c) (toLowerCase term) in
      if index \<noteq> - 1 \<and> index < 500 then
        (let start = max 0 (index - 50);
             stop = min (int (length c)) (index + 150)
         in ''...'' @ substring c start stop @ ''...'')
      else previewLoop c preview rest)"

definition makePreview :: "string \<Rightarrow> string list \<Rightarrow> string" where
  "makePreview c matchedTerms = previewLoop c (substring c 0 200) matchedTerms"

text \<open>The body of the loop over the records of a category.\<close>

definition processPDF ::
  "pdfMetadata \<Rightarrow> synonymMap \<Rightarrow> pdfType \<Rightarrow> ParsedQuery \<Rightarrow> pdfRecord
     \<Rightarrow> pdfResult option \<times> ParsedQuery" where
  "processPDF md syn category parsedQuery pdf =
     (let searchText = pdfSearchText pdf;
          (matches, matchedTerms) = matchQuery syn parsedQuery searchText
      in if matches then
           (let score = pdfScoreLoop pdf searchText 0 matchedTerms;
                preview = makePreview (pdf_content pdf) matchedTerms;
                (hTitle, terms1) = highlightText (pdf_title pdf) matchedTerms;
                (hContent, terms2) = highlightText preview terms1
            in (Some \<lparr>p_type = category, p_typeLabel = typeLabel category,
                       p_id = pdf_id pdf,
                       p_displayName = formatPDFDisplayName (pdf_id pdf),
                       p_title = pdf_title pdf, p_content = preview,
                       p_fullContent = pdf_content pdf,
                       p_keywords = orEmpty (pdf_keywords pdf),
                       p_fullTextLength =
                         (case fullTextLength pdf of
                            None \<Rightarrow> length (pdf_content pdf)
                          | Some n \<Rightarrow> if n = 0 then length (pdf_content pdf) else n),
                       p_score = score, p_highlightedTitle = hTitle,
                       p_highlightedContent = hContent,
                       p_url = getPDFUrl md (pdf_id pdf)\<rparr>,
                afterHighlight parsedQuery terms2))
         else (None, parsedQuery))"

fun scanPDFs ::
  "pdfMetadata \<Rightarrow> synonymMap \<Rightarrow> pdfType \<Rightarrow> ParsedQuery \<Rightarrow> pdfRecord list
     \<Rightarrow> pdfResult list \<times> ParsedQuery" where
  "scanPDFs md syn category parsedQuery [] = ([], parsedQuery)"
| "scanPDFs md syn category parsedQuery (pdf # rest) =
     (case processPDF md syn category parsedQuery pdf of
        (r, pq1) \<Rightarrow>
          (case scanPDFs md syn category pq1 rest of
             (rs, pq2) \<Rightarrow> ((case r of None \<Rightarrow> rs | Some x \<Rightarrow> x # rs), pq2)))"

fun scanCategories ::
  "pdfMetadata \<Rightarrow> synonymMap \<Rightarrow> ParsedQuery \<Rightarrow> (pdfType \<times> pdfRecord list) list
     \<Rightarrow> pdfResult list \<times> ParsedQuery" where
  "scanCategories md syn parsedQuery [] = ([], parsedQuery)"
| "scanCategories md syn parsedQuery ((category, recs) # rest) =
     (case scanPDFs md syn category parsedQuery recs of
        (rs, pq1) \<Rightarrow>
          (case scanCategories md syn pq1 rest of
             (rs', pq2) \<Rightarrow> (rs @ rs', pq2)))"

text \<open>\<open>results.sort((a, b) => b.score - a.score)\<close>: a stable sort by decreasing score.\<close>

definition sortByScore :: "('a \<Rightarrow> int) \<Rightarrow> 'a list \<Rightarrow> 'a list" where
  "sortByScore score rs = sort_key (\<lambda>r. - score r) rs"

definition categoriesOf :: "engine \<Rightarrow> (pdfType \<times> pdfRecord list) list" where
  "categoriesOf e =
     [(Standard, standards (pdfContent e)), (Detail, details (pdfContent e)),
      (Appendix, appendices (pdfContent e)), (Other, other (pdfContent e))]"

definition searchPDFs :: "engine \<Rightarrow> string \<Rightarrow> ParsedQuery \<Rightarrow> pdfResult list" where
  "searchPDFs e query parsedQuery =
     sortByScore p_score
       (fst (scanCategories (pdfMetadata e) (synonyms e) parsedQuery (categoriesOf e)))"

section \<open>The search\<close>

record searchResults =
  res_articles :: "articleResult list"
  res_pdfs :: "pdfResult list"

definition search :: "engine \<Rightarrow> string \<Rightarrow> filters \<Rightarrow> searchResults" where
  "search e query fs =
     (if \<not> isReady e \<or> query = [] \<or> length (trim query) = 0
      then \<lparr>res_articles = [], res_pdfs = []\<rparr>
      else (let parsedQuery = parseSearchQuery (synonyms e) (trim query);
                (articleResults, pq1) = scanLaws (synonyms e) query fs parsedQuery (laws e);
                pdfResults = searchPDFs e query pq1
            in \<lparr>res_articles = sortByScore r_score articleResults,
                res_pdfs = pdfResults\<rparr>))"

section \<open>The wording of two claims\<close>

text \<open>The score as claim C3 words it: the bonus of 60 is due whenever the term is a
  substring of the article's number.\<close>

definition claimedScore :: "article \<Rightarrow> string \<Rightarrow> string list \<Rightarrow> int" where
  "claimedScore a query ts =
     (let body = toLowerCase (title a @ '' '' @ content a) in
      (if js_includes body (toLowerCase query) then 150 else 0)
      + (\<Sum>t\<leftarrow>ts.
           15 * int (countMatches body (toLowerCase t))
           + (if js_includes (toLowerCase (title a)) (toLowerCase t) then 80 else 0)
           + (case articleNumber a of
                None \<Rightarrow> 0
              | Some number \<Rightarrow>
                  if js_includes (toLowerCase number) (toLowerCase t) then 60 else 0)))"

text \<open>Stripping the markup, as claim C6 needs it: every occurrence of the opening tag and
  of the closing tag is taken out, from left to right.\<close>

function stripMarkup :: "string \<Rightarrow> string" where
  "stripMarkup [] = []"
| "stripMarkup (c # s) =
     (if startsWith (c # s) spanOpen then stripMarkup (drop (length spanOpen) (c # s))
      else if startsWith (c # s) spanClose then stripMarkup (drop (length spanClose) (c # s))
      else c # stripMarkup s)"
  by pat_completeness auto
termination
  by (relation "measure length") (auto simp: spanOpen_def spanClose_def)

section \<open>Occurrences of a term\<close>

text \<open>The term \<open>p\<close> occurs in \<open>s\<close> at position \<open>i\<close>.\<close>

definition occursAt :: "string \<Rightarrow> string \<Rightarrow> nat \<Rightarrow> bool" where
  "occursAt s p i = (i \<le> length s \<and> startsWith (drop i s) p)"

text \<open>The first occurrence of \<open>p\<close> in \<open>s\<close> is at position \<open>i\<close>.\<close>

definition firstAt :: "string \<Rightarrow> string \<Rightarrow> nat \<Rightarrow> bool" where
  "firstAt s p i = (occursAt s p i \<and> list_all (\<lambda>j. \<not> occursAt s p j) [0..<i])"

section \<open>The shape of a PDF id\<close>

text \<open>An id made of the upper-case letter \<open>c\<close>, the non-empty digit run \<open>ds\<close> and the
  suffix \<open>sfx\<close>, which is empty or a hyphen followed by a non-empty digit run.\<close>

definition pdfIdShape :: "char \<Rightarrow> string \<Rightarrow> string \<Rightarrow> bool" where
  "pdfIdShape c ds sfx =
     (isUpperAZ c \<and> ds \<noteq> [] \<and> list_all isDigit ds
      \<and> (sfx = [] \<or> (case sfx of
                        h # ds2 \<Rightarrow> h = CHR ''-'' \<and> ds2 \<noteq> [] \<and> list_all isDigit ds2
                      | [] \<Rightarrow> False)))"

section \<open>The parsed query during a scan\<close>

text \<open>All the expanded terms of a parsed query: the terms of every group in OR mode, the
  term list in AND mode.\<close>

definition queryTerms :: "ParsedQuery \<Rightarrow> string list" where
  "queryTerms parsedQuery =
     (case parsedQuery of OR_mode gs ots \<Rightarrow> concat gs | AND_mode ts ots \<Rightarrow> ts)"

text \<open>A parsed query as \<open>parseSearchQuery\<close> builds it: in AND mode there is an original
  term, and the term list holds the expansions of every original term.\<close>

definition wellFormedQuery :: "synonymMap \<Rightarrow> ParsedQuery \<Rightarrow> bool" where
  "wellFormedQuery syn parsedQuery =
     (case parsedQuery of
        OR_mode gs ots \<Rightarrow> True
      | AND_mode ts ots \<Rightarrow>
          ots \<noteq> [] \<and> list_all (\<lambda>ot. list_all (\<lambda>s. s \<in> set ts) (expandSynonyms syn ot)) ots)"

text \<open>The parsed query \<open>pq'\<close> is \<open>pq\<close> up to the order of the terms of AND mode.\<close>

definition sameQuery :: "ParsedQuery \<Rightarrow> ParsedQuery \<Rightarrow> bool" where
  "sameQuery pq pq' =
     (case pq of
        OR_mode gs ots \<Rightarrow> pq' = pq
      | AND_mode ts ots \<Rightarrow>
          (case pq' of
             OR_mode gs' ots' \<Rightarrow> False
           | AND_mode ts' ots' \<Rightarrow> ots' = ots \<and> set ts' = set ts))"

text \<open>What every result of a search satisfies: a score that is not negative, and a term of
  the query that occurs in the search text of the record.\<close>

definition articleResultOk :: "ParsedQuery \<Rightarrow> articleResult \<Rightarrow> bool" where
  "articleResultOk pq r =
     (0 \<le> r_score r
      \<and> list_ex (\<lambda>t. 0 < countMatches (toLowerCase (r_title r @ '' '' @ r_content r))
                        (toLowerCase t)) (queryTerms pq))"

definition pdfResultOk :: "ParsedQuery \<Rightarrow> pdfResult \<Rightarrow> bool" where
  "pdfResultOk pq r =
     (0 \<le> p_score r
      \<and> list_ex (\<lambda>t. 0 < countMatches
                        (toLowerCase (p_title r @ '' '' @ p_fullContent r @ '' ''
                                        @ join '' '' (p_keywords r)))
                        (toLowerCase t)) (queryTerms pq))"

section \<open>Properties of the synonym expansion\<close>

lemma set_foldl_set_add: "set (foldl set_add xs ys) = set xs \<union> set ys"
  by (induction ys arbitrary: xs) (auto simp: set_add_def)

lemma set_set_add: "set (set_add xs x) = insert x (set xs)"
  by (auto simp: set_add_def)

lemma in_expandEntries:
  "t \<in> set (expandEntries query syn ts) \<longleftrightarrow>
     t \<in> set ts \<or>
     (\<exists>(key, syns) \<in> set syn.
         (js_includes (toLowerCase query) (toLowerCase key)
            \<or> (\<exists>s\<in>set syns. js_includes (toLowerCase query) (toLowerCase s)))
         \<and> (t = toLowerCase key \<or> t \<in> toLowerCase ` set syns))"
proof (induction syn arbitrary: ts)
  case Nil
  then show ?case by simp
next
  case (Cons e syn)
  obtain key syns where e: "e = (key, syns)" by (cases e)
  let ?A = "js_includes (toLowerCase query) (toLowerCase key)"
  let ?B = "\<exists>s\<in>set syns. js_includes (toLowerCase query) (toLowerCase s)"
  let ?new = "insert (toLowerCase key) (toLowerCase ` set syns)"
  let ?ts2 = "(let keyLower = toLowerCase key;
          synonymsLower = map toLowerCase syns;
          terms1 = (if js_includes (toLowerCase query) keyLower
                    then foldl set_add (set_add ts keyLower) synonymsLower
                    else ts);
          terms2 = (if list_ex (\<lambda>s. js_includes (toLowerCase query) s) synonymsLower
                    then foldl set_add (set_add terms1 keyLower) synonymsLower
                    else terms1)
      in terms2)"
  have ts2: "set ?ts2 = (if ?A \<or> ?B then set ts \<union> ?new else set ts)"
    by (auto simp: Let_def set_foldl_set_add set_set_add list_ex_iff)
  have step: "expandEntries query (e # syn) ts = expandEntries query syn ?ts2"
    by (simp add: e Let_def)
  have "t \<in> set (expandEntries query (e # syn) ts) \<longleftrightarrow>
          t \<in> set ?ts2 \<or>
          (\<exists>(key, syns) \<in> set syn.
             (js_includes (toLowerCase query) (toLowerCase key)
                \<or> (\<exists>s\<in>set syns. js_includes (toLowerCase query) (toLowerCase s)))
             \<and> (t = toLowerCase key \<or> t \<in> toLowerCase ` set syns))"
    unfolding step by (rule Cons.IH)
  also have "t \<in> set ?ts2 \<longleftrightarrow> t \<in> set ts \<or> ((?A \<or> ?B) \<and> t \<in> ?new)"
    unfolding ts2 by auto
  finally show ?case
    unfolding e by auto
qed

text \<open>
  What \<open>expandSynonyms\<close> computes: the result holds the lower-cased input term, and a term
  is in the result exactly when it is that term or it is the lower-cased key or a
  lower-cased synonym of a dictionary entry whose lower-cased key is a substring of the
  lower-cased input, or one of whose lower-cased synonyms is a substring of the lower-cased
  input.
\<close>

lemma expandSynonyms_terms:
  "toLowerCase query \<in> set (expandSynonyms syn query) \<and>
   (\<forall>t. t \<in> set (expandSynonyms syn query) \<longleftrightarrow>
      t = toLowerCase query \<or>
      (\<exists>(key, syns) \<in> set syn.
         (js_includes (toLowerCase query) (toLowerCase key)
            \<or> (\<exists>s\<in>set syns. js_includes (toLowerCase query) (toLowerCase s)))
         \<and> (t = toLowerCase key \<or> t \<in> toLowerCase ` set syns)))"
  unfolding expandSynonyms_def in_expandEntries by simp

lemma expandSynonyms_terms_example:
  "''braking system'' \<in> set (expandSynonyms [(''brake'', [''braking system''])] ''Brake pad'')"
proof -
  have "js_includes (toLowerCase ''Brake pad'') (toLowerCase ''brake'')" by code_simp
  moreover have "''braking system'' \<in> toLowerCase ` set [''braking system'']" by code_simp
  ultimately show ?thesis
    using expandSynonyms_terms [of "''Brake pad''" "[(''brake'', [''braking system''])]"]
    by simp
qed

text \<open>
  C4 at a failing input. With the one entry \<open>brake\<close> \<open>\<mapsto>\<close> \<open>braking system\<close>, the input
  \<open>braking\<close> is a substring of the lower-cased synonym \<open>braking system\<close>, which is the
  case the comment above the second test of the loop describes (the query is contained in
  one of the synonyms). The code tests the opposite containment, and returns the input
  term alone: neither the key \<open>brake\<close> nor the synonym is added.
\<close>

theorem expandSynonyms_misses_containing_synonym:
  "js_includes (toLowerCase ''braking system'') (toLowerCase ''braking'')
   \<and> expandSynonyms [(''brake'', [''braking system''])] ''braking'' = [''braking'']
   \<and> ''brake'' \<notin> set (expandSynonyms [(''brake'', [''braking system''])] ''braking'')"
  by code_simp

section \<open>Properties of the matching\<close>

lemma firstMatchingGroup_None:
  "firstMatchingGroup body gs = None \<longleftrightarrow>
     \<not> (\<exists>g\<in>set gs. \<exists>t\<in>set g. js_includes body (toLowerCase t))"
  by (induction gs) (auto simp: list_ex_iff)

lemma firstMatchingGroup_Some:
  "firstMatchingGroup body gs = Some g \<Longrightarrow>
     \<exists>pre post. gs = pre @ g # post
       \<and> (\<forall>h\<in>set pre. \<forall>t\<in>set h. \<not> js_includes body (toLowerCase t))
       \<and> (\<exists>t\<in>set g. js_includes body (toLowerCase t))"
proof (induction gs)
  case Nil
  then show ?case by simp
next
  case (Cons h gs)
  show ?case
  proof (cases "list_ex (\<lambda>t. js_includes body (toLowerCase t)) h")
    case True
    with Cons.prems have "g = h" by simp
    with True have "h # gs = [] @ g # gs \<and> (\<exists>t\<in>set g. js_includes body (toLowerCase t))"
      by (simp add: list_ex_iff)
    then show ?thesis by fastforce
  next
    case False
    with Cons.prems have "firstMatchingGroup body gs = Some g" by simp
    from Cons.IH [OF this] obtain pre post where
      "gs = pre @ g # post"
      "\<forall>h\<in>set pre. \<forall>t\<in>set h. \<not> js_includes body (toLowerCase t)"
      "\<exists>t\<in>set g. js_includes body (toLowerCase t)" by blast
    with False have "h # gs = (h # pre) @ g # post
       \<and> (\<forall>h\<in>set (h # pre). \<forall>t\<in>set h. \<not> js_includes body (toLowerCase t))
       \<and> (\<exists>t\<in>set g. js_includes body (toLowerCase t))"
      by (simp add: list_ex_iff)
    then show ?thesis by blast
  qed
qed

lemma processArticle_matches:
  "fst (processArticle syn query l pq a) \<noteq> None \<longleftrightarrow>
     fst (matchQuery syn pq (toLowerCase (title a @ '' '' @ content a)))"
  by (simp add: processArticle_def Let_def split: prod.splits)

lemma processPDF_matches:
  "fst (processPDF md syn category pq pdf) \<noteq> None \<longleftrightarrow>
     fst (matchQuery syn pq (pdfSearchText pdf))"
  by (simp add: processPDF_def Let_def split: prod.splits)

lemma matchQuery_OR:
  "fst (matchQuery syn (OR_mode gs ots) body) \<longleftrightarrow>
     (\<exists>g\<in>set gs. \<exists>t\<in>set g. js_includes body (toLowerCase t))"
  using firstMatchingGroup_None [of body gs]
  by (auto simp: matchQuery_def split: option.splits)

lemma matchQuery_OR_terms:
  assumes "fst (matchQuery syn (OR_mode gs ots) body)"
  shows "\<exists>pre g post. gs = pre @ g # post
       \<and> (\<forall>h\<in>set pre. \<forall>t\<in>set h. \<not> js_includes body (toLowerCase t))
       \<and> (\<exists>t\<in>set g. js_includes body (toLowerCase t))
       \<and> snd (matchQuery syn (OR_mode gs ots) body) = g"
proof -
  from assms obtain g where g: "firstMatchingGroup body gs = Some g"
    by (auto simp: matchQuery_def split: option.splits)
  then have "snd (matchQuery syn (OR_mode gs ots) body) = g"
    by (simp add: matchQuery_def)
  with firstMatchingGroup_Some [OF g] show ?thesis by blast
qed

lemma matchQuery_AND:
  "fst (matchQuery syn (AND_mode ts ots) body) \<longleftrightarrow>
     (\<forall>ot\<in>set ots. \<exists>s\<in>set (expandSynonyms syn ot). js_includes body (toLowerCase s))"
  by (simp add: matchQuery_def Let_def list_all_iff list_ex_iff)

text \<open>
  C1 (as the code has it). In OR mode a record matches exactly when some group has at least
  one of its expanded terms in the record's lower-cased search text; the matched terms are
  then the terms of the first such group, no group before it having a term in the text.
  This holds for the search text of an article and for that of a PDF record.
\<close>

theorem or_mode_matching:
  "(fst (matchQuery syn (OR_mode gs ots) body) \<longleftrightarrow>
      (\<exists>g\<in>set gs. \<exists>t\<in>set g. js_includes body (toLowerCase t)))
   \<and> (fst (matchQuery syn (OR_mode gs ots) body) \<longrightarrow>
        (\<exists>pre g post. gs = pre @ g # post
           \<and> (\<forall>h\<in>set pre. \<forall>t\<in>set h. \<not> js_includes body (toLowerCase t))
           \<and> (\<exists>t\<in>set g. js_includes body (toLowerCase t))
           \<and> snd (matchQuery syn (OR_mode gs ots) body) = g))
   \<and> (fst (processArticle syn query l (OR_mode gs ots) a) \<noteq> None \<longleftrightarrow>
        (\<exists>g\<in>set gs. \<exists>t\<in>set g.
            js_includes (toLowerCase (title a @ '' '' @ content a)) (toLowerCase t)))
   \<and> (fst (processPDF md syn category (OR_mode gs ots) pdf) \<noteq> None \<longleftrightarrow>
        (\<exists>g\<in>set gs. \<exists>t\<in>set g. js_includes (pdfSearchText pdf) (toLowerCase t)))"
  using matchQuery_OR_terms [of syn gs ots body]
  by (simp only: processArticle_matches processPDF_matches matchQuery_OR) blast

theorem or_mode_matching_witness:
  "fst (matchQuery [] (OR_mode [ [''a''], [''b'']] [''a'', ''b'']) ''only b here'')"
proof -
  have "\<exists>g\<in>set [ [''a''], [''b'']]. \<exists>t\<in>set g. js_includes ''only b here'' (toLowerCase t)"
    by code_simp
  then show ?thesis
    using or_mode_matching [of "[]" "[ [''a''], [''b'']]" "[''a'', ''b'']" "''only b here''"]
    by blast
qed

text \<open>
  C1 as the claim words it fails: with the entry \<open>brake\<close> \<open>\<mapsto>\<close> \<open>braking system\<close>, the query
  \<open>brake OR lamp\<close> matches a text that holds \<open>braking system\<close> only, although the first
  group lacks its term \<open>brake\<close> and the second its term \<open>lamp\<close>.
\<close>

theorem or_mode_claim_counterexample:
  "parseSearchQuery [(''brake'', [''braking system''])] ''brake OR lamp''
     = OR_mode [ [''brake'', ''braking system''], [''lamp'']] [''brake'', ''lamp'']
   \<and> fst (matchQuery [(''brake'', [''braking system''])]
            (parseSearchQuery [(''brake'', [''braking system''])] ''brake OR lamp'')
            (toLowerCase ''Stopping A braking system is fitted.''))
   \<and> \<not> js_includes (toLowerCase ''Stopping A braking system is fitted.'') (toLowerCase ''brake'')
   \<and> \<not> js_includes (toLowerCase ''Stopping A braking system is fitted.'') (toLowerCase ''lamp'')"
  by code_simp

text \<open>
  C2. In AND mode a record matches exactly when every original term has one of its synonym
  expansions in the record's lower-cased search text, for an article and for a PDF record;
  the expansions are computed from the original terms at each record, so the outcome does
  not depend on the expanded term list of the parsed query.
\<close>

theorem and_mode_matching:
  "(fst (matchQuery syn (AND_mode ts ots) body) \<longleftrightarrow>
      (\<forall>ot\<in>set ots. \<exists>s\<in>set (expandSynonyms syn ot). js_includes body (toLowerCase s)))
   \<and> (fst (processArticle syn query l (AND_mode ts ots) a) \<noteq> None \<longleftrightarrow>
        (\<forall>ot\<in>set ots. \<exists>s\<in>set (expandSynonyms syn ot).
            js_includes (toLowerCase (title a @ '' '' @ content a)) (toLowerCase s)))
   \<and> (fst (processPDF md syn category (AND_mode ts ots) pdf) \<noteq> None \<longleftrightarrow>
        (\<forall>ot\<in>set ots. \<exists>s\<in>set (expandSynonyms syn ot).
            js_includes (pdfSearchText pdf) (toLowerCase s)))
   \<and> (fst (processPDF md syn category (AND_mode ts' ots) pdf) \<noteq> None \<longleftrightarrow>
        fst (processPDF md syn category (AND_mode ts ots) pdf) \<noteq> None)"
  by (simp only: processArticle_matches processPDF_matches matchQuery_AND)

theorem and_mode_matching_witness:
  "\<not> fst (matchQuery [] (AND_mode [''lamp'', ''light''] [''lamp'', ''light'']) ''a lamp'')"
proof -
  have "\<not> (\<forall>ot\<in>set [''lamp'', ''light''].
            \<exists>s\<in>set (expandSynonyms [] ot). js_includes ''a lamp'' (toLowerCase s))"
    by code_simp
  then show ?thesis
    using and_mode_matching
            [of "[]" "[''lamp'', ''light'']" "[''lamp'', ''light'']" "''a lamp''"]
    by blast
qed

section \<open>Properties of the article score\<close>

lemma scoreLoop_sum:
  "scoreLoop a body score ts =
     score + (\<Sum>t\<leftarrow>ts.
        15 * int (countMatches body (toLowerCase t))
        + (if js_includes (toLowerCase (title a)) (toLowerCase t) then 80 else 0)
        + (case articleNumber a of
             None \<Rightarrow> 0
           | Some number \<Rightarrow>
               if number \<noteq> [] \<and> js_includes (toLowerCase number) (toLowerCase t)
               then 60 else 0))"
  by (induction ts arbitrary: score) (auto simp: Let_def split: option.splits)

lemma processArticle_score:
  "fst (processArticle syn query l pq a) = Some r \<Longrightarrow>
     r_score r = calculateScore a query
        (snd (matchQuery syn pq (toLowerCase (title a @ '' '' @ content a))))"
  by (auto simp: processArticle_def Let_def split: prod.splits if_splits)

lemma docs_scoreLoop_sum:
  "docs_scoreLoop a body score ts =
     score + (\<Sum>t\<leftarrow>ts.
        10 * int (countMatches body (toLowerCase t))
        + (if js_includes (toLowerCase (title a)) (toLowerCase t) then 50 else 0))"
  by (induction ts arbitrary: score) (auto simp: Let_def)

lemma docs_calculateScore_sum:
  "docs_calculateScore a query ts =
     (if js_includes (toLowerCase (title a @ '' '' @ content a)) (toLowerCase query)
      then 100 else 0)
     + (\<Sum>t\<leftarrow>ts.
          10 * int (countMatches (toLowerCase (title a @ '' '' @ content a)) (toLowerCase t))
          + (if js_includes (toLowerCase (title a)) (toLowerCase t) then 50 else 0))"
  by (simp add: docs_calculateScore_def Let_def docs_scoreLoop_sum)

text \<open>
  C3 (as the code has it). The score of an article is 150 if the lower-cased query is in
  the lower-cased title, space and content, plus, for each matched term, 15 times the
  number of its matches there, 80 if it is in the title, and 60 if the article has a
  non-empty number and the term is in it; and this is the score of the result that
  \<open>search\<close> builds for a matched article, on its matched terms and the query as typed.
\<close>

theorem calculateScore_sum:
  "calculateScore a query ts =
     (if js_includes (toLowerCase (title a @ '' '' @ content a)) (toLowerCase query)
      then 150 else 0)
     + (\<Sum>t\<leftarrow>ts.
          15 * int (countMatches (toLowerCase (title a @ '' '' @ content a)) (toLowerCase t))
          + (if js_includes (toLowerCase (title a)) (toLowerCase t) then 80 else 0)
          + (case articleNumber a of
               None \<Rightarrow> 0
             | Some number \<Rightarrow>
                 if number \<noteq> [] \<and> js_includes (toLowerCase number) (toLowerCase t)
                 then 60 else 0))
   \<and> (\<forall>r. fst (processArticle syn q l pq a) = Some r \<longrightarrow>
         r_score r = calculateScore a q
            (snd (matchQuery syn pq (toLowerCase (title a @ '' '' @ content a)))))"
  by (simp add: calculateScore_def Let_def scoreLoop_sum processArticle_score)

theorem calculateScore_sum_witness:
  "map_option r_score (fst (processArticle [] ''brake''
     \<lparr>lawId = ''L1'', lawName = ''Act'', lawType = ''statute'', articles = []\<rparr>
     (parseSearchQuery [] ''brake'')
     \<lparr>articleNumber = Some ''Art 5'', title = ''Brake lamp'',
             content = ''The brake lamp shall be red.'', paragraphs = []\<rparr>)) = Some 260"
  (is "map_option r_score (fst (processArticle ?syn ?q ?l ?pq ?a)) = _")
proof -
  have "fst (processArticle ?syn ?q ?l ?pq ?a) \<noteq> None"
    by code_simp
  then obtain r where r: "fst (processArticle ?syn ?q ?l ?pq ?a) = Some r"
    by blast
  have "calculateScore ?a ?q
          (snd (matchQuery ?syn ?pq (toLowerCase (title ?a @ '' '' @ content ?a)))) = 260"
    by code_simp
  with r have "r_score r = 260"
    using calculateScore_sum [of ?a ?q "[]" ?syn ?q ?l ?pq] by simp
  with r show ?thesis by simp
qed

text \<open>
  C3 as the claim words it fails where the article's number is the empty string and the
  empty string is among the terms (a synonym entry with an empty synonym puts it there):
  the empty term is a substring of the empty number, and the guard on the number skips
  the bonus.
\<close>

theorem calculateScore_claim_counterexample:
  "parseSearchQuery [(''x'', [''''])] ''x'' = AND_mode [''x'', ''''] [''x'']
   \<and> calculateScore \<lparr>articleNumber = Some '''', title = ''x'', content = '''', paragraphs = []\<rparr>
        ''x'' [''x'', ''''] = 370
   \<and> claimedScore \<lparr>articleNumber = Some '''', title = ''x'', content = '''', paragraphs = []\<rparr>
        ''x'' [''x'', ''''] = 430"
  by code_simp

section \<open>Properties of the loading\<close>

lemma loadData_reports:
  "fst (loadData e lr sr mr pr) \<longleftrightarrow>
     (\<exists>ld sd md pd. lr = Document ld \<and> sr = Document sd \<and> mr = Document md \<and> pr = Document pd)"
  by (cases lr; cases sr; cases mr; cases pr) (simp_all add: loadData_def isRejected_def Let_def)

lemma loadData_isReady:
  "\<not> fst (loadData e lr sr mr pr) \<Longrightarrow> isReady (snd (loadData e lr sr mr pr)) = isReady e"
  by (cases lr; cases sr; cases mr; cases pr) (simp_all add: loadData_def isRejected_def Let_def)

lemma loadData_pdfContent:
  "\<not> fst (loadData e lr sr mr pr) \<Longrightarrow> pdfContent (snd (loadData e lr sr mr pr)) = pdfContent e"
  by (cases lr; cases sr; cases mr; cases pr) (simp_all add: loadData_def isRejected_def Let_def)

lemma loadData_rejected:
  "lr = FetchRejected \<or> sr = FetchRejected \<or> mr = FetchRejected \<or> pr = FetchRejected \<Longrightarrow>
     loadData e lr sr mr pr = (False, e)"
  by (auto simp: loadData_def isRejected_def)

lemma search_not_ready:
  "\<not> isReady e \<Longrightarrow> search e q fs = \<lparr>res_articles = [], res_pdfs = []\<rparr>"
  by (simp add: search_def)

lemma loadData_partial:
  "(lr = JsonRejected \<longrightarrow> snd (loadData e lr sr mr pr) = e)
   \<and> (lr = Document l1 \<and> sr = JsonRejected \<and> mr \<noteq> FetchRejected \<and> pr \<noteq> FetchRejected
        \<longrightarrow> snd (loadData e lr sr mr pr) = e\<lparr>laws := doc_laws l1\<rparr>)
   \<and> (lr = Document l1 \<and> sr = Document s1 \<and> mr = JsonRejected \<and> pr \<noteq> FetchRejected
        \<longrightarrow> snd (loadData e lr sr mr pr) = e\<lparr>laws := doc_laws l1, synonyms := s1\<rparr>)
   \<and> (lr = Document l1 \<and> sr = Document s1 \<and> mr = Document m1 \<and> pr = JsonRejected
        \<longrightarrow> snd (loadData e lr sr mr pr)
              = e\<lparr>laws := doc_laws l1, synonyms := s1, pdfMetadata := m1\<rparr>)"
  by (cases lr; cases sr; cases mr; cases pr) (simp_all add: loadData_def isRejected_def Let_def)

text \<open>
  C5 (as the code has it). When one of the four requests does not come to a document and
  the ready flag is false, \<open>loadData\<close> returns \<open>false\<close>, the ready flag stays false,
  \<open>pdfContent\<close> is unchanged, every \<open>search\<close> on the engine returns two empty lists, and a
  later load of four documents returns \<open>true\<close> and sets the flag. When a \<open>fetch\<close> rejects,
  or the \<open>json()\<close> of the laws does, no field is changed. When no \<open>fetch\<close> rejects and a
  later \<open>json()\<close> rejects, the fields assigned before it keep their new values and no other
  field is changed: \<open>laws\<close> when the synonyms fail; \<open>laws\<close> and \<open>synonyms\<close> when the PDF
  metadata fail; \<open>laws\<close>, \<open>synonyms\<close> and \<open>pdfMetadata\<close> when the PDF content fails.
\<close>

theorem loadData_failure:
  assumes "(\<forall>d. lr \<noteq> Document d) \<or> (\<forall>d. sr \<noteq> Document d)
             \<or> (\<forall>d. mr \<noteq> Document d) \<or> (\<forall>d. pr \<noteq> Document d)"
    and "\<not> isReady e"
  shows "fst (loadData e lr sr mr pr) = False
       \<and> \<not> isReady (snd (loadData e lr sr mr pr))
       \<and> pdfContent (snd (loadData e lr sr mr pr)) = pdfContent e
       \<and> (lr = FetchRejected \<or> sr = FetchRejected \<or> mr = FetchRejected \<or> pr = FetchRejected
            \<longrightarrow> snd (loadData e lr sr mr pr) = e)
       \<and> search (snd (loadData e lr sr mr pr)) q fs = \<lparr>res_articles = [], res_pdfs = []\<rparr>
       \<and> fst (loadData (snd (loadData e lr sr mr pr))
                (Document ld) (Document sd) (Document md) (Document pd))
       \<and> isReady (snd (loadData (snd (loadData e lr sr mr pr))
                (Document ld) (Document sd) (Document md) (Document pd)))
       \<and> (lr = JsonRejected \<longrightarrow> snd (loadData e lr sr mr pr) = e)
       \<and> (lr = Document l1 \<and> sr = JsonRejected \<and> mr \<noteq> FetchRejected \<and> pr \<noteq> FetchRejected
            \<longrightarrow> snd (loadData e lr sr mr pr) = e\<lparr>laws := doc_laws l1\<rparr>)
       \<and> (lr = Document l1 \<and> sr = Document s1 \<and> mr = JsonRejected \<and> pr \<noteq> FetchRejected
            \<longrightarrow> snd (loadData e lr sr mr pr) = e\<lparr>laws := doc_laws l1, synonyms := s1\<rparr>)
       \<and> (lr = Document l1 \<and> sr = Document s1 \<and> mr = Document m1 \<and> pr = JsonRejected
            \<longrightarrow> snd (loadData e lr sr mr pr)
                  = e\<lparr>laws := doc_laws l1, synonyms := s1, pdfMetadata := m1\<rparr>)"
proof -
  from assms(1) have f: "\<not> fst (loadData e lr sr mr pr)"
    unfolding loadData_reports by blast
  have r: "\<not> isReady (snd (loadData e lr sr mr pr))"
    using loadData_isReady [OF f] assms(2) by simp
  have ok: "fst (loadData e' (Document ld) (Document sd) (Document md) (Document pd))
     \<and> isReady (snd (loadData e' (Document ld) (Document sd) (Document md) (Document pd)))" for e'
    by (simp add: loadData_def isRejected_def Let_def)
  have first: "fst (loadData e lr sr mr pr) = False
       \<and> \<not> isReady (snd (loadData e lr sr mr pr))
       \<and> pdfContent (snd (loadData e lr sr mr pr)) = pdfContent e
       \<and> (lr = FetchRejected \<or> sr = FetchRejected \<or> mr = FetchRejected \<or> pr = FetchRejected
            \<longrightarrow> snd (loadData e lr sr mr pr) = e)
       \<and> search (snd (loadData e lr sr mr pr)) q fs = \<lparr>res_articles = [], res_pdfs = []\<rparr>
       \<and> fst (loadData (snd (loadData e lr sr mr pr))
                (Document ld) (Document sd) (Document md) (Document pd))
       \<and> isReady (snd (loadData (snd (loadData e lr sr mr pr))
                (Document ld) (Document sd) (Document md) (Document pd)))"
    using f r loadData_pdfContent [OF f] loadData_rejected [of lr sr mr pr e]
      search_not_ready [OF r] ok
    by auto
  from first loadData_partial [of lr e sr mr pr l1 s1 m1] show ?thesis
    by blast
qed

theorem loadData_failure_witness:
  "fst (loadData newEngine (Document \<lparr>doc_laws = []\<rparr>) JsonRejected (Document \<lparr>md_details = None, md_appendices = None\<rparr>) FetchRejected) = False
   \<and> snd (loadData newEngine (Document \<lparr>doc_laws = []\<rparr>) JsonRejected (Document \<lparr>md_details = None, md_appendices = None\<rparr>) FetchRejected) = newEngine
   \<and> snd (loadData newEngine
             (Document \<lparr>doc_laws = [\<lparr>lawId = ''L2'', lawName = ''Order'', lawType = ''y'',
                                     articles = []\<rparr>]\<rparr>)
             (Document [(''brake'', [''braking system''])])
             JsonRejected JsonRejected)
       = newEngine\<lparr>laws := [\<lparr>lawId = ''L2'', lawName = ''Order'', lawType = ''y'',
                                articles = []\<rparr>],
                    synonyms := [(''brake'', [''braking system''])]\<rparr>"
proof -
  have j: "\<forall>d. (JsonRejected :: synonymMap fetched) \<noteq> Document d" by simp
  have m: "\<forall>d. (JsonRejected :: pdfMetadata fetched) \<noteq> Document d" by simp
  have n: "\<not> isReady newEngine" by (simp add: newEngine_def)
  have p: "(JsonRejected :: pdfData fetched) \<noteq> FetchRejected" by simp
  from j n have 1: "fst (loadData newEngine (Document \<lparr>doc_laws = []\<rparr>) JsonRejected (Document \<lparr>md_details = None, md_appendices = None\<rparr>) FetchRejected) = False
   \<and> snd (loadData newEngine (Document \<lparr>doc_laws = []\<rparr>) JsonRejected (Document \<lparr>md_details = None, md_appendices = None\<rparr>) FetchRejected) = newEngine"
    using loadData_failure [of "Document \<lparr>doc_laws = []\<rparr>" JsonRejected
             "Document \<lparr>md_details = None, md_appendices = None\<rparr>" FetchRejected newEngine]
    by simp
  from m n p have 2: "snd (loadData newEngine
             (Document \<lparr>doc_laws = [\<lparr>lawId = ''L2'', lawName = ''Order'', lawType = ''y'',
                                     articles = []\<rparr>]\<rparr>)
             (Document [(''brake'', [''braking system''])])
             JsonRejected JsonRejected)
       = newEngine\<lparr>laws := [\<lparr>lawId = ''L2'', lawName = ''Order'', lawType = ''y'',
                                articles = []\<rparr>],
                    synonyms := [(''brake'', [''braking system''])]\<rparr>"
    using loadData_failure
            [where lr = "Document \<lparr>doc_laws = [\<lparr>lawId = ''L2'', lawName = ''Order'',
                                                 lawType = ''y'', articles = []\<rparr>]\<rparr>"
               and sr = "Document [(''brake'', [''braking system''])]"
               and mr = JsonRejected and pr = JsonRejected and e = newEngine
               and ?l1.0 = "\<lparr>doc_laws = [\<lparr>lawId = ''L2'', lawName = ''Order'',
                                             lawType = ''y'', articles = []\<rparr>]\<rparr>"
               and ?s1.0 = "[(''brake'', [''braking system''])]"]
    by simp
  from 1 2 show ?thesis by blast
qed

text \<open>
  C5 as the claim words it fails: when the laws document parses and the synonyms document
  does not, \<open>loadData\<close> returns \<open>false\<close> and the laws of the engine are the new ones.
\<close>

theorem loadData_atomicity_counterexample:
  "fst (loadData newEngine
          (Document \<lparr>doc_laws = [\<lparr>lawId = ''L1'', lawName = ''Act'', lawType = ''x'', articles = []\<rparr>]\<rparr>)
          JsonRejected (Document \<lparr>md_details = None, md_appendices = None\<rparr>)
          (Document \<lparr>data_standards = None, data_details = None, data_appendices = None,
                      data_other = None\<rparr>)) = False
   \<and> laws newEngine = []
   \<and> laws (snd (loadData newEngine
          (Document \<lparr>doc_laws = [\<lparr>lawId = ''L1'', lawName = ''Act'', lawType = ''x'', articles = []\<rparr>]\<rparr>)
          JsonRejected (Document \<lparr>md_details = None, md_appendices = None\<rparr>)
          (Document \<lparr>data_standards = None, data_details = None, data_appendices = None,
                      data_other = None\<rparr>)))
      = [\<lparr>lawId = ''L1'', lawName = ''Act'', lawType = ''x'', articles = []\<rparr>]"
  by (simp add: loadData_def isRejected_def newEngine_def)

section \<open>Highlighting and the markup\<close>

text \<open>
  C6 at a failing input. The query \<open>headlight light\<close> parses to the terms \<open>headlight\<close> and
  \<open>light\<close>. On the title \<open>Headlight\<close> the first pass wraps the whole title; the second pass
  matches \<open>light\<close> in the text of the first pass, inside the attribute \<open>class="highlight"\<close>
  as well as inside the title. What is left after taking the tags out is not the title.
\<close>

theorem highlightText_breaks_markup:
  "parseSearchQuery [] ''headlight light''
     = AND_mode [''headlight'', ''light''] [''headlight'', ''light'']
   \<and> fst (highlightText ''Headlight'' [''headlight'', ''light''])
     = ''<span class=\"high<span class=\"highlight\">light</span>\">Head<span class=\"highlight\">light</span></span>''
   \<and> stripMarkup (fst (highlightText ''Headlight'' [''headlight'', ''light'']))
     = ''<span class=\"highlight\">Headlight''
   \<and> map_option r_highlightedTitle
        (fst (processArticle [] ''headlight light''
                \<lparr>lawId = ''L1'', lawName = ''Act'', lawType = ''x'', articles = []\<rparr>
                (parseSearchQuery [] ''headlight light'')
                \<lparr>articleNumber = Some ''1'', title = ''Headlight'', content = ''white'',
                   paragraphs = []\<rparr>))
     = Some ''<span class=\"high<span class=\"highlight\">light</span>\">Head<span class=\"highlight\">light</span></span>''"
  by code_simp

section \<open>Properties of the PDF preview\<close>

lemma firstAt_iff: "firstAt s p i \<longleftrightarrow> occursAt s p i \<and> (\<forall>j<i. \<not> occursAt s p j)"
  by (auto simp: firstAt_def list_all_iff)

lemma startsWith_Nil: "startsWith [] p \<longleftrightarrow> p = []"
  by (cases p) simp_all

lemma occursAt_Nil: "occursAt [] p i \<longleftrightarrow> i = 0 \<and> p = []"
  by (auto simp: occursAt_def startsWith_Nil)

lemma occursAt_Cons_0: "occursAt (c # s) p 0 \<longleftrightarrow> startsWith (c # s) p"
  by (simp add: occursAt_def)

lemma occursAt_Cons_Suc: "occursAt (c # s) p (Suc i) \<longleftrightarrow> occursAt s p i"
  by (simp add: occursAt_def)

lemma firstAt_Cons_0: "startsWith (c # s) p \<Longrightarrow> firstAt (c # s) p 0"
  by (simp add: firstAt_iff occursAt_Cons_0)

lemma firstAt_Cons_Suc:
  assumes "\<not> startsWith (c # s) p" and "firstAt s p i"
  shows "firstAt (c # s) p (Suc i)"
proof -
  have "\<not> occursAt (c # s) p j" if "j < Suc i" for j
  proof (cases j)
    case 0
    with assms(1) show ?thesis by (simp add: occursAt_Cons_0)
  next
    case (Suc j')
    with that assms(2) show ?thesis by (simp add: occursAt_Cons_Suc firstAt_iff)
  qed
  with assms(2) show ?thesis by (simp add: firstAt_iff occursAt_Cons_Suc)
qed

lemma no_occurrence_Cons:
  assumes "\<not> startsWith (c # s) p" and "\<forall>i. \<not> occursAt s p i"
  shows "\<not> occursAt (c # s) p i"
  using assms by (cases i) (simp_all add: occursAt_Cons_0 occursAt_Cons_Suc)

lemma indexOfFrom_cases:
  "(indexOfFrom k s p = - 1 \<and> (\<forall>i. \<not> occursAt s p i))
   \<or> (\<exists>i. indexOfFrom k s p = int (k + i) \<and> firstAt s p i)"
proof (induction s arbitrary: k)
  case Nil
  show ?case
  proof (cases "p = []")
    case True
    then have "indexOfFrom k [] p = int (k + 0) \<and> firstAt [] p 0"
      by (simp add: firstAt_iff occursAt_Nil)
    then show ?thesis by blast
  next
    case False
    then show ?thesis by (simp add: occursAt_Nil)
  qed
next
  case (Cons c s)
  show ?case
  proof (cases "startsWith (c # s) p")
    case True
    then have "indexOfFrom k (c # s) p = int (k + 0) \<and> firstAt (c # s) p 0"
      by (simp add: firstAt_Cons_0)
    then show ?thesis by blast
  next
    case False
    then have step: "indexOfFrom k (c # s) p = indexOfFrom (Suc k) s p" by simp
    from Cons.IH [of "Suc k"] show ?thesis
    proof
      assume a: "indexOfFrom (Suc k) s p = - 1 \<and> (\<forall>i. \<not> occursAt s p i)"
      then have "\<forall>i. \<not> occursAt (c # s) p i"
        using no_occurrence_Cons [OF False] by blast
      with a step show ?thesis by simp
    next
      assume "\<exists>i. indexOfFrom (Suc k) s p = int (Suc k + i) \<and> firstAt s p i"
      then obtain i where i: "indexOfFrom (Suc k) s p = int (Suc k + i)" "firstAt s p i"
        by blast
      then have "indexOfFrom k (c # s) p = int (k + Suc i) \<and> firstAt (c # s) p (Suc i)"
        using step firstAt_Cons_Suc [OF False i(2)] by simp
      then show ?thesis by blast
    qed
  qed
qed

lemma firstAt_unique:
  assumes "firstAt s p i" and "firstAt s p i'"
  shows "i = i'"
proof (rule ccontr)
  assume "i \<noteq> i'"
  then have "i < i' \<or> i' < i" by arith
  then show False using assms unfolding firstAt_iff by blast
qed

lemma indexOf_first:
  assumes "firstAt s p i"
  shows "indexOf s p = int i"
proof -
  from indexOfFrom_cases [of 0 s p] show ?thesis
  proof
    assume "indexOfFrom 0 s p = - 1 \<and> (\<forall>i. \<not> occursAt s p i)"
    with assms show ?thesis by (simp add: firstAt_iff)
  next
    assume "\<exists>i. indexOfFrom 0 s p = int (0 + i) \<and> firstAt s p i"
    then obtain i' where "indexOfFrom 0 s p = int i'" "firstAt s p i'" by auto
    with firstAt_unique [OF assms, of i'] show ?thesis by (simp add: indexOf_def)
  qed
qed

lemma indexOf_found:
  assumes "indexOf s p \<noteq> - 1"
  shows "\<exists>i. indexOf s p = int i \<and> firstAt s p i"
  using indexOfFrom_cases [of 0 s p] assms unfolding indexOf_def by auto

lemma indexOf_none_iff: "indexOf s p = - 1 \<longleftrightarrow> (\<forall>i. \<not> occursAt s p i)"
proof -
  from indexOfFrom_cases [of 0 s p] show ?thesis
  proof
    assume "indexOfFrom 0 s p = - 1 \<and> (\<forall>i. \<not> occursAt s p i)"
    then show ?thesis by (simp add: indexOf_def)
  next
    assume "\<exists>i. indexOfFrom 0 s p = int (0 + i) \<and> firstAt s p i"
    then obtain i where "indexOfFrom 0 s p = int i" "occursAt s p i"
      by (auto simp: firstAt_iff)
    then show ?thesis by (auto simp: indexOf_def)
  qed
qed

lemma substring_slice:
  "a \<le> b \<Longrightarrow> b \<le> length s \<Longrightarrow> substring s (int a) (int b) = take (b - a) (drop a s)"
  by (simp add: substring_def Let_def min_def max_def)

lemma substring_prefix: "substring s 0 (int n) = take n s"
  by (simp add: substring_def Let_def min_def max_def)

lemma previewLoop_skip:
  assumes "\<not> (\<exists>i<500. firstAt (toLowerCase c) (toLowerCase t) i)"
  shows "previewLoop c d (t # ts) = previewLoop c d ts"
proof -
  have "\<not> (indexOf (toLowerCase c) (toLowerCase t) \<noteq> - 1
           \<and> indexOf (toLowerCase c) (toLowerCase t) < 500)"
  proof
    assume a: "indexOf (toLowerCase c) (toLowerCase t) \<noteq> - 1
           \<and> indexOf (toLowerCase c) (toLowerCase t) < 500"
    with indexOf_found [of "toLowerCase c" "toLowerCase t"] obtain i where
      "indexOf (toLowerCase c) (toLowerCase t) = int i"
      "firstAt (toLowerCase c) (toLowerCase t) i" by blast
    with a assms show False by auto
  qed
  then show ?thesis by (auto simp: Let_def)
qed

lemma previewLoop_found:
  assumes "firstAt (toLowerCase c) (toLowerCase t) i" and "i < 500"
  shows "previewLoop c d (t # post)
      = ''...'' @ take (min (length c) (i + 150) - (i - 50)) (drop (i - 50) c) @ ''...''"
proof -
  have ix: "indexOf (toLowerCase c) (toLowerCase t) = int i"
    using indexOf_first [OF assms(1)] .
  from assms(1) have le: "i \<le> length c"
    by (simp add: firstAt_iff occursAt_def toLowerCase_def)
  have s: "max 0 (int i - 50) = int (i - 50)" by simp
  have e: "min (int (length c)) (int i + 150) = int (min (length c) (i + 150))" by simp
  have sub: "substring c (int (i - 50)) (int (min (length c) (i + 150)))
          = take (min (length c) (i + 150) - (i - 50)) (drop (i - 50) c)"
    using le by (intro substring_slice) auto
  have "previewLoop c d (t # post)
      = ''...'' @ substring c (max 0 (int i - 50)) (min (int (length c)) (int i + 150)) @ ''...''"
    using assms(2) by (simp add: ix Let_def)
  then show ?thesis unfolding s e sub .
qed

lemma previewLoop_append:
  assumes "\<forall>t\<in>set pre. \<not> (\<exists>i<500. firstAt (toLowerCase c) (toLowerCase t) i)"
  shows "previewLoop c d (pre @ rest) = previewLoop c d rest"
  using assms
proof (induction pre)
  case Nil
  then show ?case by simp
next
  case (Cons t pre)
  then have "previewLoop c d (t # pre @ rest) = previewLoop c d (pre @ rest)"
    by (intro previewLoop_skip) simp
  with Cons show ?case by simp
qed

lemma processPDF_preview:
  "fst (processPDF md syn category pq pdf) = Some r \<Longrightarrow>
     p_content r = makePreview (pdf_content pdf) (snd (matchQuery syn pq (pdfSearchText pdf)))"
  by (auto simp: processPDF_def Let_def split: prod.splits if_splits)

text \<open>
  C8. The preview of a PDF record is the first 200 characters of its content when no
  matched term has its first occurrence (ignoring case) before position 500 of the
  content; otherwise, with \<open>t\<close> the first matched term that has, and \<open>i\<close> the position of its
  first occurrence, it is the content from \<open>max(0, i - 50)\<close> to \<open>min(length, i + 150)\<close>
  between two ellipsis markers. The preview of a result is built so, on the matched terms
  of its record.
\<close>

theorem makePreview_window:
  "((\<forall>t\<in>set ts. \<not> (\<exists>i<500. firstAt (toLowerCase c) (toLowerCase t) i))
       \<longrightarrow> makePreview c ts = take 200 c)
   \<and> (\<forall>pre t post i.
         ts = pre @ t # post
         \<and> (\<forall>u\<in>set pre. \<not> (\<exists>j<500. firstAt (toLowerCase c) (toLowerCase u) j))
         \<and> firstAt (toLowerCase c) (toLowerCase t) i \<and> i < 500
       \<longrightarrow> makePreview c ts
            = ''...'' @ take (min (length c) (i + 150) - (i - 50)) (drop (i - 50) c) @ ''...'')
   \<and> (\<forall>r. fst (processPDF md syn category pq pdf) = Some r \<longrightarrow>
         p_content r
           = makePreview (pdf_content pdf) (snd (matchQuery syn pq (pdfSearchText pdf))))"
proof (intro conjI allI impI)
  assume "\<forall>t\<in>set ts. \<not> (\<exists>i<500. firstAt (toLowerCase c) (toLowerCase t) i)"
  then have "previewLoop c (substring c 0 200) (ts @ []) = previewLoop c (substring c 0 200) []"
    by (rule previewLoop_append)
  then show "makePreview c ts = take 200 c"
    using substring_prefix [of c 200] by (simp add: makePreview_def)
next
  fix pre t post i
  assume a: "ts = pre @ t # post
         \<and> (\<forall>u\<in>set pre. \<not> (\<exists>j<500. firstAt (toLowerCase c) (toLowerCase u) j))
         \<and> firstAt (toLowerCase c) (toLowerCase t) i \<and> i < 500"
  then have "previewLoop c (substring c 0 200) (pre @ t # post)
               = previewLoop c (substring c 0 200) (t # post)"
    by (intro previewLoop_append) simp
  with a show "makePreview c ts
            = ''...'' @ take (min (length c) (i + 150) - (i - 50)) (drop (i - 50) c) @ ''...''"
    using previewLoop_found [of c t i "substring c 0 200" post]
    by (simp add: makePreview_def)
next
  fix r
  assume "fst (processPDF md syn category pq pdf) = Some r"
  then show "p_content r
           = makePreview (pdf_content pdf) (snd (matchQuery syn pq (pdfSearchText pdf)))"
    by (rule processPDF_preview)
qed

theorem makePreview_window_witness:
  "makePreview ''The brake pedal'' [''lamp'', ''Brake''] = ''...The brake pedal...''
   \<and> makePreview ''The brake pedal'' [''lamp''] = ''The brake pedal''"
proof -
  have "indexOf (toLowerCase ''The brake pedal'') (toLowerCase ''lamp'') = - 1"
    by code_simp
  then have "\<forall>i. \<not> occursAt (toLowerCase ''The brake pedal'') (toLowerCase ''lamp'') i"
    by (simp add: indexOf_none_iff)
  then have 1: "\<forall>u\<in>set [''lamp''].
      \<not> (\<exists>j<500. firstAt (toLowerCase ''The brake pedal'') (toLowerCase u) j)"
    by (simp add: firstAt_iff)
  have 2: "firstAt (toLowerCase ''The brake pedal'') (toLowerCase ''Brake'') 4" by code_simp
  show ?thesis
    using makePreview_window [of "[''lamp'', ''Brake'']" "''The brake pedal''", THEN conjunct2, THEN conjunct1,
         rule_format, of "[''lamp'']" "''Brake''" "[]" 4]
      makePreview_window [of "[''lamp'']" "''The brake pedal''", THEN conjunct1] 1 2
    by simp
qed

section \<open>Properties of the display name\<close>

lemma not_digit_minus: "\<not> isDigit CHR ''-''"
  by (simp add: isDigit_def)

lemma matchPdfId_shape:
  assumes "pdfIdShape c ds sfx"
  shows "matchPdfId (c # ds @ sfx) = Some (c, ds, sfx)"
proof -
  from assms have d: "\<And>x. x \<in> set ds \<Longrightarrow> isDigit x" and ne: "ds \<noteq> []" and u: "isUpperAZ c"
    by (auto simp: pdfIdShape_def list_all_iff)
  from assms have nd: "takeWhile isDigit sfx = []" "dropWhile isDigit sfx = sfx"
    by (auto simp: pdfIdShape_def not_digit_minus split: list.splits)
  have t: "takeWhile isDigit (ds @ sfx) = ds"
    using d nd by (simp add: takeWhile_append2)
  have r: "dropWhile isDigit (ds @ sfx) = sfx"
    using d nd by (simp add: dropWhile_append2)
  have "matchPdfId (c # ds @ sfx) =
          (case sfx of
             [] \<Rightarrow> Some (c, ds, [])
           | h # ds2 \<Rightarrow>
               if h = CHR ''-'' \<and> ds2 \<noteq> [] \<and> list_all isDigit ds2
               then Some (c, ds, sfx) else None)"
    unfolding matchPdfId_def Let_def list.case t r using u ne by simp
  with assms show ?thesis
    by (auto simp: pdfIdShape_def split: list.splits)
qed

lemma matchPdfId_Some:
  assumes "matchPdfId pdfId = Some (c, ds, sfx)"
  shows "pdfId = c # ds @ sfx \<and> pdfIdShape c ds sfx"
proof (cases pdfId)
  case Nil
  with assms show ?thesis by (simp add: matchPdfId_def)
next
  case (Cons c' rest)
  define t where "t = takeWhile isDigit rest"
  define r where "r = dropWhile isDigit rest"
  have split: "rest = t @ r" by (simp add: t_def r_def)
  have dig: "list_all isDigit t"
    by (auto simp: t_def list_all_iff dest: set_takeWhileD)
  have "matchPdfId (c' # rest) =
          (if \<not> isUpperAZ c' then None
           else if t = [] then None
           else case r of
                  [] \<Rightarrow> Some (c', t, [])
                | h # ds2 \<Rightarrow>
                    if h = CHR ''-'' \<and> ds2 \<noteq> [] \<and> list_all isDigit ds2
                    then Some (c', t, r) else None)"
    unfolding matchPdfId_def t_def r_def by (simp add: Let_def)
  with assms Cons have "c' = c \<and> isUpperAZ c \<and> ds = t \<and> ds \<noteq> [] \<and> sfx = r
      \<and> (sfx = [] \<or> (case sfx of h # ds2 \<Rightarrow> h = CHR ''-'' \<and> ds2 \<noteq> [] \<and> list_all isDigit ds2
                      | [] \<Rightarrow> False))"
    by (auto split: if_splits list.splits)
  with Cons split dig show ?thesis
    by (auto simp: pdfIdShape_def)
qed

lemma matchPdfId_None:
  assumes "\<not> (\<exists>c ds sfx. pdfId = c # ds @ sfx \<and> pdfIdShape c ds sfx)"
  shows "matchPdfId pdfId = None"
proof (cases "matchPdfId pdfId")
  case None
  then show ?thesis .
next
  case (Some m)
  obtain c ds sfx where "m = (c, ds, sfx)" by (cases m)
  with Some matchPdfId_Some [of pdfId c ds sfx] assms show ?thesis by blast
qed

lemma bitLength_bounds:
  "0 < n \<Longrightarrow> 2 ^ (bitLength n - 1) \<le> n \<and> n < 2 ^ bitLength n"
proof (induction n rule: bitLength.induct)
  case (1 n)
  show ?case
  proof (cases "n div 2 = 0")
    case True
    with "1.prems" have n: "n = 1" by presburger
    have "bitLength 1 = 1"
      by (simp add: bitLength.simps [of 1] bitLength.simps [of 0])
    with n show ?thesis by simp
  next
    case False
    with "1.prems" have pos: "0 < n div 2" by presburger
    from "1.IH" "1.prems" pos
    have ih: "2 ^ (bitLength (n div 2) - 1) \<le> n div 2" "n div 2 < 2 ^ bitLength (n div 2)"
      by auto
    have b: "bitLength n = Suc (bitLength (n div 2))"
      using "1.prems" by (simp add: bitLength.simps [of n])
    have bp: "0 < bitLength (n div 2)"
      using pos by (simp add: bitLength.simps [of "n div 2"])
    then obtain k where k: "bitLength (n div 2) = Suc k" by (cases "bitLength (n div 2)") auto
    from ih(1) have "2 * 2 ^ k \<le> n" unfolding k by (simp; presburger)
    moreover from ih(2) have "n < 2 * 2 ^ Suc k" unfolding k by (simp; presburger)
    ultimately show ?thesis unfolding b k by simp
  qed
qed

lemma toDouble_small: "n < 2 ^ 53 \<Longrightarrow> toDouble n = Finite n"
  by (simp add: toDouble_def)

lemma toDouble_large:
  assumes "2 ^ 53 \<le> n" and "toDouble n = Finite v"
  shows "2 ^ 53 \<le> v"
proof -
  define e where "e = bitLength n - 53"
  define q where "q = n div 2 ^ e"
  define q' where "q' = (if 2 ^ e < 2 * (n mod 2 ^ e) \<or> (2 * (n mod 2 ^ e) = 2 ^ e \<and> odd q)
                          then q + 1 else q)"
  from assms(1) have pos: "0 < n" by (simp add: less_le_trans [of 0 "2 ^ 53"])
  from bitLength_bounds [OF pos] have b: "2 ^ (bitLength n - 1) \<le> n" "n < 2 ^ bitLength n"
    by simp_all
  have "53 < bitLength n"
  proof (rule ccontr)
    assume "\<not> 53 < bitLength n"
    then have "bitLength n \<le> 53" by simp
    then have "(2::int) ^ bitLength n \<le> 2 ^ 53" by (rule power_increasing) simp
    with b(2) assms(1) show False by simp
  qed
  then have e: "bitLength n - 1 = e + 52" "1 \<le> e" by (simp_all add: e_def)
  from b(1) have "2 ^ 52 * 2 ^ e \<le> n" unfolding e(1) by (simp add: power_add mult.commute)
  then have "2 ^ 52 \<le> q"
    unfolding q_def by (metis div_mult_self_is_m zdiv_mono1 zero_less_numeral zero_less_power
        div_by_0 mult_zero_right nonzero_mult_div_cancel_right power_not_zero zero_neq_numeral)
  then have q': "2 ^ 52 \<le> q'" by (simp add: q'_def)
  have "(2::int) ^ 1 \<le> 2 ^ e" using e(2) by (intro power_increasing) simp_all
  then have two: "(2::int) \<le> 2 ^ e" by simp
  have "(2::int) ^ 53 = 2 ^ 52 * 2" by simp
  also have "\<dots> \<le> q' * 2 ^ e" using q' two by (intro mult_mono) simp_all
  finally have "2 ^ 53 \<le> q' * 2 ^ e" .
  moreover have "toDouble n = (if 2 ^ 1024 \<le> q' * 2 ^ e then PosInfinity else Finite (q' * 2 ^ e))"
    using assms(1) unfolding toDouble_def Let_def e_def q_def q'_def by simp
  with assms(2) have "v = q' * 2 ^ e" by (simp split: if_splits)
  ultimately show ?thesis by simp
qed

lemma shortest_small:
  assumes "0 \<le> x" and "x < 2 ^ 53"
  shows "shortest x m = x"
proof (induction m)
  case 0
  show ?case by simp
next
  case (Suc m)
  define p :: int where "p = 10 ^ Suc m"
  define lo where "lo = (x div p) * p"
  have p: "0 < p" by (simp add: p_def)
  have lo: "lo \<le> x" "x < lo + p"
    using p unfolding lo_def
    by (simp_all add: minus_mod_eq_div_mult [symmetric] pos_mod_bound pos_mod_sign)
  from lo(1) assms(2) have "toDouble lo = Finite lo" by (intro toDouble_small) simp
  then have okLo: "(toDouble lo = Finite x) = (lo = x)" by auto
  have okHi: "toDouble (lo + p) \<noteq> Finite x"
  proof (cases "lo + p < 2 ^ 53")
    case True
    then have "toDouble (lo + p) = Finite (lo + p)" by (rule toDouble_small)
    with lo(2) show ?thesis by simp
  next
    case False
    then have "2 ^ 53 \<le> lo + p" by simp
    with toDouble_large [of "lo + p" x] assms(2) show ?thesis by auto
  qed
  have "shortest x (Suc m) = (if lo = x then lo else shortest x m)"
    using okLo okHi by (simp add: Let_def p_def [symmetric] lo_def [symmetric] del: power_Suc)
  with Suc show ?case by simp
qed

lemma decimalString_length:
  "0 < k \<Longrightarrow> n < 10 ^ k \<Longrightarrow> length (decimalString n) \<le> k"
proof (induction n arbitrary: k rule: decimalString.induct)
  case (1 n)
  show ?case
  proof (cases "n < 10")
    case True
    with "1.prems" show ?thesis by (simp add: decimalString.simps [of n])
  next
    case False
    from "1.prems" obtain j where k: "k = Suc j" by (cases k) auto
    from False "1.prems" have "0 < j" unfolding k by (cases j) auto
    moreover from "1.prems" have "n div 10 < 10 ^ j" unfolding k by (simp; presburger)
    ultimately have "length (decimalString (n div 10)) \<le> j" using "1.IH" False by simp
    with False show ?thesis by (simp add: decimalString.simps [of n] k)
  qed
qed

lemma numberToString_small:
  assumes "0 \<le> x" and "x < 2 ^ 53"
  shows "numberToString (Finite x) = decimalString x"
proof -
  have "x < 10 ^ 16" using assms(2) by simp
  then have "length (decimalString x) \<le> 16" by (intro decimalString_length) simp_all
  then show ?thesis
    by (simp add: numberToString_def Let_def shortest_small [OF assms])
qed

lemma digit_char_value: "0 \<le> n \<Longrightarrow> n < 10 \<Longrightarrow> digitValue (''0123456789'' ! nat n) = n"
proof -
  assume a: "0 \<le> n" "n < 10"
  then have "nat n \<in> set [0..<10]" by simp
  moreover have "\<forall>k\<in>set [0..<10]. digitValue (''0123456789'' ! k) = int k" by code_simp
  ultimately have "digitValue (''0123456789'' ! nat n) = int (nat n)" by blast
  with a show ?thesis by simp
qed

lemma digitsValue_snoc: "digitsValue (ds @ [d]) = digitsValue ds * 10 + digitValue d"
  by (simp add: digitsValue_def)

lemma digitsValue_decimalString: "0 \<le> n \<Longrightarrow> digitsValue (decimalString n) = n"
proof (induction n rule: decimalString.induct)
  case (1 n)
  show ?case
  proof (cases "n < 10")
    case True
    then have "decimalString n = [''0123456789'' ! nat n]"
      by (simp add: decimalString.simps [of n])
    with True "1.prems" show ?thesis by (simp add: digitsValue_def digit_char_value)
  next
    case False
    then have "decimalString n = decimalString (n div 10) @ [''0123456789'' ! nat (n mod 10)]"
      by (simp add: decimalString.simps [of n])
    moreover from False "1.prems" "1.IH" have "digitsValue (decimalString (n div 10)) = n div 10"
      by simp
    ultimately show ?thesis
      by (simp add: digitsValue_snoc digit_char_value)
  qed
qed

lemma digitValue_nonneg: "isDigit d \<Longrightarrow> 0 \<le> digitValue d"
  by (auto simp: isDigit_def digitValue_def)

lemma digitsValue_nonneg: "list_all isDigit ds \<Longrightarrow> 0 \<le> digitsValue ds"
proof (induction ds rule: rev_induct)
  case Nil
  show ?case by (simp add: digitsValue_def)
next
  case (snoc d ds)
  then show ?case by (simp add: digitsValue_snoc digitValue_nonneg)
qed

lemma parseInt10_small:
  assumes "list_all isDigit ds" and "digitsValue ds < 2 ^ 53"
  shows "numberToString (parseInt10 ds) = decimalString (digitsValue ds)"
  using numberToString_small [OF digitsValue_nonneg [OF assms(1)] assms(2)] assms(2)
  by (simp add: parseInt10_def toDouble_small)

text \<open>
  C9 (as the code has it). An id of the shape letter, digits, optional hyphen and digits is
  formatted by its letter: \<open>S\<close> gives the detail-notice label, the number, the article
  counter and the suffix; \<open>B\<close> gives the appendix label, the number and the suffix; \<open>H\<close>
  gives the safety-standard label, the number, the article counter and the suffix; any
  other letter leaves the id as it is. An id that has not the shape is returned unchanged.
  The number is what JavaScript prints for the double that \<open>parseInt\<close> returns: when the
  digit run denotes an integer below \<open>2^53\<close>, its decimal digits without leading zeros
  (reading the printed digits gives the integer back). \<open>B12\<close> gives the appendix label
  followed by \<open>12\<close>, and \<open>Z9\<close> gives \<open>Z9\<close>.
\<close>

theorem formatPDFDisplayName_table:
  "(pdfIdShape c ds sfx \<longrightarrow>
      formatPDFDisplayName (c # ds @ sfx) =
        (if c = CHR ''S'' then label_S @ numberToString (parseInt10 ds) @ label_jou @ sfx
         else if c = CHR ''B'' then label_B @ numberToString (parseInt10 ds) @ sfx
         else if c = CHR ''H'' then label_H @ numberToString (parseInt10 ds) @ label_jou @ sfx
         else c # ds @ sfx))
   \<and> (pdfIdShape c ds sfx \<and> digitsValue ds < 2 ^ 53 \<longrightarrow>
      formatPDFDisplayName (c # ds @ sfx) =
        (if c = CHR ''S'' then label_S @ decimalString (digitsValue ds) @ label_jou @ sfx
         else if c = CHR ''B'' then label_B @ decimalString (digitsValue ds) @ sfx
         else if c = CHR ''H'' then label_H @ decimalString (digitsValue ds) @ label_jou @ sfx
         else c # ds @ sfx))
   \<and> (\<not> (\<exists>c ds sfx. pdfId = c # ds @ sfx \<and> pdfIdShape c ds sfx) \<longrightarrow>
        formatPDFDisplayName pdfId = pdfId)
   \<and> (0 \<le> n \<longrightarrow> digitsValue (decimalString n) = n)
   \<and> formatPDFDisplayName ''B12'' = label_B @ ''12''
   \<and> formatPDFDisplayName ''Z9'' = ''Z9''"
proof (intro conjI impI)
  assume "pdfIdShape c ds sfx"
  then show "formatPDFDisplayName (c # ds @ sfx) =
        (if c = CHR ''S'' then label_S @ numberToString (parseInt10 ds) @ label_jou @ sfx
         else if c = CHR ''B'' then label_B @ numberToString (parseInt10 ds) @ sfx
         else if c = CHR ''H'' then label_H @ numberToString (parseInt10 ds) @ label_jou @ sfx
         else c # ds @ sfx)"
    by (simp add: formatPDFDisplayName_def matchPdfId_shape Let_def)
next
  assume a: "pdfIdShape c ds sfx \<and> digitsValue ds < 2 ^ 53"
  then have "list_all isDigit ds" by (simp add: pdfIdShape_def)
  with a have "numberToString (parseInt10 ds) = decimalString (digitsValue ds)"
    by (intro parseInt10_small) simp_all
  with a show "formatPDFDisplayName (c # ds @ sfx) =
        (if c = CHR ''S'' then label_S @ decimalString (digitsValue ds) @ label_jou @ sfx
         else if c = CHR ''B'' then label_B @ decimalString (digitsValue ds) @ sfx
         else if c = CHR ''H'' then label_H @ decimalString (digitsValue ds) @ label_jou @ sfx
         else c # ds @ sfx)"
    by (simp add: formatPDFDisplayName_def matchPdfId_shape Let_def)
next
  assume "\<not> (\<exists>c ds sfx. pdfId = c # ds @ sfx \<and> pdfIdShape c ds sfx)"
  then show "formatPDFDisplayName pdfId = pdfId"
    by (simp add: formatPDFDisplayName_def matchPdfId_None)
next
  assume "0 \<le> n"
  then show "digitsValue (decimalString n) = n" by (rule digitsValue_decimalString)
next
  show "formatPDFDisplayName ''B12'' = label_B @ ''12''" by code_simp
next
  show "formatPDFDisplayName ''Z9'' = ''Z9''" by code_simp
qed

theorem formatPDFDisplayName_table_witness:
  "formatPDFDisplayName ''S007-2'' = label_S @ ''7'' @ label_jou @ ''-2''
   \<and> formatPDFDisplayName ''standard-1'' = ''standard-1''"
proof -
  have s: "pdfIdShape CHR ''S'' ''007'' ''-2''" by code_simp
  have "digitsValue ''007'' = 7" by code_simp
  then have n: "digitsValue ''007'' < 2 ^ 53" by simp
  have v: "decimalString (digitsValue ''007'') = ''7''" by code_simp
  have "matchPdfId ''standard-1'' = None" by code_simp
  with matchPdfId_shape
  have no: "\<not> (\<exists>c ds sfx. ''standard-1'' = c # ds @ sfx \<and> pdfIdShape c ds sfx)"
    by fastforce
  note t = formatPDFDisplayName_table [of "CHR ''S''" "''007''" "''-2''" "''standard-1''" 0]
  from t [THEN conjunct2, THEN conjunct1] s n
  have "formatPDFDisplayName (CHR ''S'' # ''007'' @ ''-2'')
      = label_S @ decimalString (digitsValue ''007'') @ label_jou @ ''-2''"
    by (simp only: simp_thms if_True)
  then have 1: "formatPDFDisplayName ''S007-2'' = label_S @ ''7'' @ label_jou @ ''-2''"
    unfolding v by simp
  from t [THEN conjunct2, THEN conjunct2, THEN conjunct1] no
  have 2: "formatPDFDisplayName ''standard-1'' = ''standard-1''"
    by blast
  from 1 2 show ?thesis ..
qed

text \<open>
  C9 as the claim words it fails for a digit run that no double holds: the number of the
  id \<open>B9007199254740993\<close> is \<open>2^53 + 1\<close>, \<open>parseInt\<close> rounds it to \<open>2^53\<close>, and the label
  shows \<open>9007199254740992\<close>.
\<close>

theorem formatPDFDisplayName_rounding_counterexample:
  "digitsValue ''9007199254740993'' = 9007199254740993
   \<and> formatPDFDisplayName ''B9007199254740993'' = label_B @ ''9007199254740992''"
  by code_simp

lemma formatPDFDisplayName_exponent:
  "formatPDFDisplayName ''S100000000000000000000000'' = label_S @ ''1e+23'' @ label_jou"
  by code_simp

section \<open>The terms array under highlighting\<close>

lemma sortTerms_sorted: "sorted_wrt (\<lambda>a b. length b \<le> length a) (sortTerms ts)"
proof -
  have "sorted (map (\<lambda>t. - int (length t)) (sortTerms ts))"
    unfolding sortTerms_def by (rule sorted_sort_key)
  then show ?thesis by (simp add: sorted_map)
qed

lemma sortTerms_mset: "mset (sortTerms ts) = mset ts"
  by (simp add: sortTerms_def)

lemma sortTerms_set: "set (sortTerms ts) = set ts"
  by (simp add: sortTerms_def)

lemma sortTerms_idem: "sortTerms (sortTerms ts) = sortTerms ts"
  unfolding sortTerms_def by (rule sort_key_id_if_sorted) (rule sorted_sort_key)

lemma sortTerms_Nil_iff: "sortTerms ts = [] \<longleftrightarrow> ts = []"
  using sortTerms_set [of ts] by (metis set_empty)

lemma highlightText_terms:
  "snd (highlightText body ts) = (if body = [] then ts else sortTerms ts)"
  by (cases "ts = []") (simp_all add: highlightText_def Let_def sortTerms_def)

lemma highlightText_twice:
  "snd (highlightText b2 (snd (highlightText b1 ts)))
     = (if b1 = [] \<and> b2 = [] then ts else sortTerms ts)"
  by (simp add: highlightText_terms sortTerms_idem)

lemma matchQuery_AND_terms:
  "fst (matchQuery syn (AND_mode ts ots) body) \<Longrightarrow>
     snd (matchQuery syn (AND_mode ts ots) body) = ts"
  by (simp add: matchQuery_def Let_def)

lemma processArticle_AND_state:
  assumes "fst (processArticle syn q l (AND_mode ts ots) a) \<noteq> None"
  shows "snd (processArticle syn q l (AND_mode ts ots) a)
           = AND_mode (if title a = [] \<and> content a = [] then ts else sortTerms ts) ots"
proof -
  let ?body = "toLowerCase (title a @ '' '' @ content a)"
  from assms have m: "fst (matchQuery syn (AND_mode ts ots) ?body)"
    by (simp add: processArticle_def Let_def split: prod.splits if_splits)
  then have mt: "matchQuery syn (AND_mode ts ots) ?body = (True, ts)"
    using matchQuery_AND_terms [OF m] by (simp add: prod_eq_iff)
  let ?snip = "substring (content a) 0 300 @ (if length (content a) > 300 then ''...'' else [])"
  have snip: "?snip = [] \<longleftrightarrow> content a = []"
    by (auto simp: substring_def Let_def)
  have "snd (processArticle syn q l (AND_mode ts ots) a)
          = afterHighlight (AND_mode ts ots)
              (snd (highlightText ?snip (snd (highlightText (title a) ts))))"
    using mt by (auto simp: processArticle_def Let_def split: prod.splits)
  also have "\<dots> = AND_mode (if title a = [] \<and> content a = [] then ts else sortTerms ts) ots"
    unfolding highlightText_twice snip by (simp add: afterHighlight_def)
  finally show ?thesis .
qed

lemma processArticle_unmatched:
  "fst (processArticle syn q l pq a) = None \<Longrightarrow> snd (processArticle syn q l pq a) = pq"
  by (simp add: processArticle_def Let_def split: prod.splits if_splits)

lemma processArticle_OR_state:
  "snd (processArticle syn q l (OR_mode gs ots) a) = OR_mode gs ots"
  by (simp add: processArticle_def Let_def afterHighlight_def split: prod.splits)

lemma previewLoop_nonempty: "d \<noteq> [] \<Longrightarrow> previewLoop c d ts \<noteq> []"
  by (induction ts) (simp_all add: Let_def)

lemma makePreview_nonempty: "c \<noteq> [] \<Longrightarrow> makePreview c ts \<noteq> []"
  unfolding makePreview_def
  by (rule previewLoop_nonempty) (cases c; simp add: substring_def Let_def)

lemma processPDF_AND_state:
  assumes "fst (processPDF md syn cat (AND_mode ts ots) pdf) \<noteq> None"
    and "pdf_title pdf \<noteq> [] \<or> pdf_content pdf \<noteq> []"
  shows "snd (processPDF md syn cat (AND_mode ts ots) pdf) = AND_mode (sortTerms ts) ots"
proof -
  from assms(1) have m: "fst (matchQuery syn (AND_mode ts ots) (pdfSearchText pdf))"
    by (simp add: processPDF_def Let_def split: prod.splits if_splits)
  then have mt: "matchQuery syn (AND_mode ts ots) (pdfSearchText pdf) = (True, ts)"
    using matchQuery_AND_terms [OF m] by (simp add: prod_eq_iff)
  have "snd (processPDF md syn cat (AND_mode ts ots) pdf)
          = afterHighlight (AND_mode ts ots)
              (snd (highlightText (makePreview (pdf_content pdf) ts)
                      (snd (highlightText (pdf_title pdf) ts))))"
    using mt by (auto simp: processPDF_def Let_def split: prod.splits)
  also have "\<dots> = AND_mode (sortTerms ts) ots"
    unfolding highlightText_twice using assms(2) makePreview_nonempty [of "pdf_content pdf" ts]
    by (auto simp: afterHighlight_def)
  finally show ?thesis .
qed

text \<open>
  C10 (as the code has it). A call of \<open>highlightText\<close> with a non-empty text leaves the
  caller's array sorted by non-increasing length, a permutation of what it was (the stable
  sort of it); a call with the empty text leaves the array as it was. In AND mode, when an
  article with a non-empty title or content matches, the articles after it are scanned
  with the sorted array as the terms of the parsed query, and so are the PDF records after
  a matching PDF record with a non-empty title or content. In OR mode the parsed query is
  left as it was.
\<close>

theorem highlightText_sorts_in_place:
  "(body \<noteq> [] \<longrightarrow>
      snd (highlightText body ts) = sortTerms ts
      \<and> sorted_wrt (\<lambda>a b. length b \<le> length a) (snd (highlightText body ts))
      \<and> mset (snd (highlightText body ts)) = mset ts)
   \<and> (body = [] \<longrightarrow> snd (highlightText body ts) = ts)
   \<and> (fst (processArticle syn q l (AND_mode ts ots) a) \<noteq> None
        \<and> (title a \<noteq> [] \<or> content a \<noteq> []) \<longrightarrow>
        scanArticles syn q l (AND_mode ts ots) (a # rest)
          = (the (fst (processArticle syn q l (AND_mode ts ots) a))
               # fst (scanArticles syn q l (AND_mode (sortTerms ts) ots) rest),
             snd (scanArticles syn q l (AND_mode (sortTerms ts) ots) rest)))
   \<and> (fst (processPDF md syn cat (AND_mode ts ots) pdf) \<noteq> None
        \<and> (pdf_title pdf \<noteq> [] \<or> pdf_content pdf \<noteq> []) \<longrightarrow>
        scanPDFs md syn cat (AND_mode ts ots) (pdf # others)
          = (the (fst (processPDF md syn cat (AND_mode ts ots) pdf))
               # fst (scanPDFs md syn cat (AND_mode (sortTerms ts) ots) others),
             snd (scanPDFs md syn cat (AND_mode (sortTerms ts) ots) others)))
   \<and> snd (processArticle syn q l (OR_mode gs ots) a) = OR_mode gs ots"
proof (intro conjI impI)
  assume "body \<noteq> []"
  then show "snd (highlightText body ts) = sortTerms ts"
    by (simp add: highlightText_terms)
  then show "sorted_wrt (\<lambda>a b. length b \<le> length a) (snd (highlightText body ts))"
    and "mset (snd (highlightText body ts)) = mset ts"
    by (simp_all add: sortTerms_sorted sortTerms_mset)
next
  assume "body = []"
  then show "snd (highlightText body ts) = ts" by (simp add: highlightText_terms)
next
  assume a: "fst (processArticle syn q l (AND_mode ts ots) a) \<noteq> None
        \<and> (title a \<noteq> [] \<or> content a \<noteq> [])"
  then have "snd (processArticle syn q l (AND_mode ts ots) a) = AND_mode (sortTerms ts) ots"
    using processArticle_AND_state [of syn q l ts ots a] by auto
  with a show "scanArticles syn q l (AND_mode ts ots) (a # rest)
          = (the (fst (processArticle syn q l (AND_mode ts ots) a))
               # fst (scanArticles syn q l (AND_mode (sortTerms ts) ots) rest),
             snd (scanArticles syn q l (AND_mode (sortTerms ts) ots) rest))"
    by (auto simp: split: prod.splits option.splits)
next
  assume a: "fst (processPDF md syn cat (AND_mode ts ots) pdf) \<noteq> None
        \<and> (pdf_title pdf \<noteq> [] \<or> pdf_content pdf \<noteq> [])"
  then have "snd (processPDF md syn cat (AND_mode ts ots) pdf) = AND_mode (sortTerms ts) ots"
    using processPDF_AND_state [of md syn cat ts ots pdf] by auto
  with a show "scanPDFs md syn cat (AND_mode ts ots) (pdf # others)
          = (the (fst (processPDF md syn cat (AND_mode ts ots) pdf))
               # fst (scanPDFs md syn cat (AND_mode (sortTerms ts) ots) others),
             snd (scanPDFs md syn cat (AND_mode (sortTerms ts) ots) others))"
    by (auto simp: split: prod.splits option.splits)
next
  show "snd (processArticle syn q l (OR_mode gs ots) a) = OR_mode gs ots"
    by (rule processArticle_OR_state)
qed

theorem highlightText_sorts_in_place_witness:
  "snd (scanArticles [] ''ab cde''
          \<lparr>lawId = ''L1'', lawName = ''Act'', lawType = ''x'', articles = []\<rparr>
          (parseSearchQuery [] ''ab cde'')
          [\<lparr>articleNumber = None, title = ''ab cde'', content = ''x'', paragraphs = []\<rparr>])
     = AND_mode [''cde'', ''ab''] [''ab'', ''cde'']
   \<and> map p_content (res_pdfs (search
       \<lparr>laws = [\<lparr>lawId = ''L1'', lawName = ''Act'', lawType = ''x'',
                 articles = [\<lparr>articleNumber = None, title = ''ab cde'', content = ''x'',
                               paragraphs = []\<rparr>]\<rparr>],
        synonyms = [],
        pdfMetadata = \<lparr>md_details = None, md_appendices = None\<rparr>,
        pdfContent = \<lparr>standards = [], details = [], appendices = [],
                       other = [\<lparr>pdf_id = ''memo'', pdf_title = ''t'',
                                  pdf_content = ''cde .......................................................... ab'',
                                  pdf_keywords = None, fullTextLength = None\<rparr>]\<rparr>,
        isReady = True\<rparr>
       ''ab cde'' \<lparr>f_law = True, f_ordinance = True\<rparr>))
     = [''...cde .......................................................... ab...'']
   \<and> makePreview ''cde .......................................................... ab'' (terms (parseSearchQuery [] ''ab cde''))
     = ''.................................................... ab...''"
proof -
  let ?l = "\<lparr>lawId = ''L1'', lawName = ''Act'', lawType = ''x'', articles = []\<rparr>"
  let ?a = "\<lparr>articleNumber = None, title = ''ab cde'', content = ''x'', paragraphs = []\<rparr>"
  have pq: "parseSearchQuery [] ''ab cde'' = AND_mode [''ab'', ''cde''] [''ab'', ''cde'']"
    by code_simp
  have m: "fst (processArticle [] ''ab cde'' ?l (AND_mode [''ab'', ''cde''] [''ab'', ''cde'']) ?a)
             \<noteq> None"
    by code_simp
  have s: "sortTerms [''ab'', ''cde''] = [''cde'', ''ab'']" by code_simp
  have 1: "snd (scanArticles [] ''ab cde'' ?l (parseSearchQuery [] ''ab cde'') [?a])
             = AND_mode [''cde'', ''ab''] [''ab'', ''cde'']"
    unfolding pq
    using highlightText_sorts_in_place
            [of "''x''" "[''ab'', ''cde'']" "[]" "''ab cde''" ?l "[''ab'', ''cde'']" ?a "[]",
             THEN conjunct2, THEN conjunct2, THEN conjunct1] m
    by (simp add: s)
  have 2: "map p_content (res_pdfs (search
       \<lparr>laws = [\<lparr>lawId = ''L1'', lawName = ''Act'', lawType = ''x'',
                 articles = [\<lparr>articleNumber = None, title = ''ab cde'', content = ''x'',
                               paragraphs = []\<rparr>]\<rparr>],
        synonyms = [],
        pdfMetadata = \<lparr>md_details = None, md_appendices = None\<rparr>,
        pdfContent = \<lparr>standards = [], details = [], appendices = [],
                       other = [\<lparr>pdf_id = ''memo'', pdf_title = ''t'',
                                  pdf_content = ''cde .......................................................... ab'',
                                  pdf_keywords = None, fullTextLength = None\<rparr>]\<rparr>,
        isReady = True\<rparr>
       ''ab cde'' \<lparr>f_law = True, f_ordinance = True\<rparr>))
     = [''...cde .......................................................... ab...'']"
    by code_simp
  have 3: "makePreview ''cde .......................................................... ab'' (terms (parseSearchQuery [] ''ab cde''))
     = ''.................................................... ab...''"
    by code_simp
  from 1 2 3 show ?thesis by blast
qed

text \<open>
  C10 as the claim words it fails for the calls with an empty text (the title of an article
  may be empty): the array comes back as it was, shorter term first.
\<close>

theorem highlightText_every_call_counterexample:
  "snd (highlightText '''' [''ab'', ''abc'']) = [''ab'', ''abc'']
   \<and> map length (snd (highlightText '''' [''ab'', ''abc''])) = [2, 3]"
  by (simp add: highlightText_def)

section \<open>Properties of the search results\<close>

lemma sameQuery_refl: "sameQuery pq pq"
  by (cases pq) (simp_all add: sameQuery_def)

lemma sameQuery_trans: "sameQuery pq pq1 \<Longrightarrow> sameQuery pq1 pq2 \<Longrightarrow> sameQuery pq pq2"
  by (cases pq; cases pq1; cases pq2) (simp_all add: sameQuery_def)

lemma sameQuery_terms: "sameQuery pq pq' \<Longrightarrow> set (queryTerms pq') = set (queryTerms pq)"
  by (cases pq; cases pq') (simp_all add: sameQuery_def queryTerms_def)

lemma sameQuery_wellFormed:
  "sameQuery pq pq' \<Longrightarrow> wellFormedQuery syn pq \<Longrightarrow> wellFormedQuery syn pq'"
  by (cases pq; cases pq') (simp_all add: sameQuery_def wellFormedQuery_def)

lemma startsWith_CI: "startsWith s p \<Longrightarrow> startsWithCI s p"
  by (induction s p rule: startsWith.induct) simp_all

lemma countMatches_pos: "js_includes s p \<Longrightarrow> 0 < countMatches s p"
proof (induction s)
  case Nil
  then show ?case by simp
next
  case (Cons c s)
  show ?case
  proof (cases "p = [] \<or> startsWithCI (c # s) p")
    case True
    then show ?thesis by auto
  next
    case False
    with Cons.prems startsWith_CI [of "c # s" p] have "js_includes s p" by auto
    with Cons.IH False show ?thesis by simp
  qed
qed

lemma matched_term_occurs:
  assumes "wellFormedQuery syn pq" and "fst (matchQuery syn pq body)"
  shows "\<exists>t\<in>set (queryTerms pq). 0 < countMatches body (toLowerCase t)"
proof (cases pq)
  case (OR_mode gs ots)
  with assms(2) matchQuery_OR [of syn gs ots body]
  obtain g t where "g \<in> set gs" "t \<in> set g" "js_includes body (toLowerCase t)" by blast
  then have "t \<in> set (queryTerms pq) \<and> 0 < countMatches body (toLowerCase t)"
    using OR_mode by (auto simp: queryTerms_def countMatches_pos)
  then show ?thesis by blast
next
  case (AND_mode ts ots)
  with assms(1) obtain ot where ot: "ot \<in> set ots" "set (expandSynonyms syn ot) \<subseteq> set ts"
    by (cases ots) (auto simp: wellFormedQuery_def list_all_iff)
  with assms(2) AND_mode matchQuery_AND [of syn ts ots body]
  obtain s where "s \<in> set (expandSynonyms syn ot)" "js_includes body (toLowerCase s)" by blast
  with ot have "s \<in> set (queryTerms pq) \<and> 0 < countMatches body (toLowerCase s)"
    using AND_mode by (auto simp: queryTerms_def countMatches_pos)
  then show ?thesis by blast
qed

lemma calculateScore_nonneg: "0 \<le> calculateScore a q ts"
  unfolding calculateScore_def Let_def scoreLoop_sum
  by (intro add_nonneg_nonneg sum_list_nonneg) (auto split: option.splits)

lemma pdfScoreLoop_sum:
  "pdfScoreLoop pdf body score ts =
     score + (\<Sum>t\<leftarrow>ts.
        if js_includes body (toLowerCase t)
        then 10 * int (countMatches body (toLowerCase t))
             + (if js_includes (toLowerCase (pdf_title pdf)) (toLowerCase t) then 50 else 0)
             + (case pdf_keywords pdf of
                  None \<Rightarrow> 0
                | Some kws \<Rightarrow>
                    if list_ex (\<lambda>kw. js_includes (toLowerCase kw) (toLowerCase t)) kws
                    then 30 else 0)
        else 0)"
  by (induction ts arbitrary: score) (auto simp: Let_def split: option.splits)

lemma pdfScoreLoop_nonneg: "0 \<le> pdfScoreLoop pdf body 0 ts"
  unfolding pdfScoreLoop_sum
  by (intro add_nonneg_nonneg sum_list_nonneg) (auto split: option.splits)

lemma articleResultOk_same: "sameQuery pq pq' \<Longrightarrow> articleResultOk pq' r \<Longrightarrow> articleResultOk pq r"
  by (auto simp: articleResultOk_def list_ex_iff dest: sameQuery_terms)

lemma pdfResultOk_same: "sameQuery pq pq' \<Longrightarrow> pdfResultOk pq' r \<Longrightarrow> pdfResultOk pq r"
  by (auto simp: pdfResultOk_def list_ex_iff dest: sameQuery_terms)

lemma processArticle_result:
  assumes "wellFormedQuery syn pq" and "fst (processArticle syn q l pq a) = Some r"
  shows "articleResultOk pq r"
proof -
  let ?body = "toLowerCase (title a @ '' '' @ content a)"
  from assms(2) have m: "fst (matchQuery syn pq ?body)"
    using processArticle_matches [of syn q l pq a] by simp
  from assms(2) have r: "r_title r = title a" "r_content r = content a"
    "r_score r = calculateScore a q (snd (matchQuery syn pq ?body))"
    by (auto simp: processArticle_def Let_def split: prod.splits if_splits)
  from matched_term_occurs [OF assms(1) m] r calculateScore_nonneg show ?thesis
    by (simp add: articleResultOk_def list_ex_iff)
qed

lemma processArticle_same: "sameQuery pq (snd (processArticle syn q l pq a))"
proof (cases "fst (processArticle syn q l pq a)")
  case None
  then show ?thesis by (simp add: processArticle_unmatched sameQuery_refl)
next
  case (Some r)
  show ?thesis
  proof (cases pq)
    case (OR_mode gs ots)
    then show ?thesis by (simp add: processArticle_OR_state sameQuery_def)
  next
    case (AND_mode ts ots)
    with Some processArticle_AND_state [of syn q l ts ots a] show ?thesis
      by (simp add: sameQuery_def sortTerms_set)
  qed
qed


lemma highlightText_eq_set: "highlightText b ts = (h, ts') \<Longrightarrow> set ts' = set ts"
  using highlightText_terms [of b ts] by (auto simp: sortTerms_set split: if_splits)

lemma processPDF_same: "sameQuery pq (snd (processPDF md syn cat pq pdf))"
  by (cases pq)
     (auto simp: processPDF_def Let_def afterHighlight_def sameQuery_def matchQuery_def
           split: prod.splits option.splits dest!: highlightText_eq_set)

lemma processPDF_result:
  assumes "wellFormedQuery syn pq" and "fst (processPDF md syn cat pq pdf) = Some r"
  shows "pdfResultOk pq r"
proof -
  from assms(2) have m: "fst (matchQuery syn pq (pdfSearchText pdf))"
    using processPDF_matches [of md syn cat pq pdf] by simp
  from assms(2) have r: "p_title r = pdf_title pdf" "p_fullContent r = pdf_content pdf"
    "p_keywords r = orEmpty (pdf_keywords pdf)"
    "p_score r = pdfScoreLoop pdf (pdfSearchText pdf) 0
                   (snd (matchQuery syn pq (pdfSearchText pdf)))"
    by (auto simp: processPDF_def Let_def split: prod.splits if_splits)
  from matched_term_occurs [OF assms(1) m] r pdfScoreLoop_nonneg show ?thesis
    by (simp add: pdfResultOk_def list_ex_iff pdfSearchText_def)
qed

lemma scanArticles_inv:
  assumes "wellFormedQuery syn pq"
  shows "(\<forall>r\<in>set (fst (scanArticles syn q l pq as)). articleResultOk pq r)
         \<and> sameQuery pq (snd (scanArticles syn q l pq as))"
  using assms
proof (induction as arbitrary: pq)
  case Nil
  then show ?case by (simp add: sameQuery_refl)
next
  case (Cons a as)
  obtain r pq1 where p: "processArticle syn q l pq a = (r, pq1)" by (cases "processArticle syn q l pq a")
  obtain rs pq2 where s: "scanArticles syn q l pq1 as = (rs, pq2)" by (cases "scanArticles syn q l pq1 as")
  from p have same1: "sameQuery pq pq1" using processArticle_same [of pq syn q l a] by simp
  then have wf1: "wellFormedQuery syn pq1" using Cons.prems by (rule sameQuery_wellFormed)
  from Cons.IH [OF wf1] s have ih: "\<forall>x\<in>set rs. articleResultOk pq1 x" "sameQuery pq1 pq2" by simp_all
  from ih(1) same1 have rs: "\<forall>x\<in>set rs. articleResultOk pq x" by (blast intro: articleResultOk_same)
  have r: "articleResultOk pq x" if "r = Some x" for x
    using processArticle_result [OF Cons.prems, of q l a x] p that by simp
  from rs r ih(2) same1 show ?case
    by (auto simp: p s split: option.splits intro: sameQuery_trans)
qed

lemma scanLaws_inv:
  assumes "wellFormedQuery syn pq"
  shows "(\<forall>r\<in>set (fst (scanLaws syn q fs pq ls)). articleResultOk pq r)
         \<and> sameQuery pq (snd (scanLaws syn q fs pq ls))"
  using assms
proof (induction ls arbitrary: pq)
  case Nil
  then show ?case by (simp add: sameQuery_refl)
next
  case (Cons l ls)
  show ?case
  proof (cases "(lawType l = lawType_law \<and> \<not> f_law fs) \<or> (lawType l = lawType_ordinance \<and> \<not> f_ordinance fs)")
    case True
    then have "scanLaws syn q fs pq (l # ls) = scanLaws syn q fs pq ls" by auto
    with Cons.IH [OF Cons.prems] show ?thesis by simp
  next
    case False
    obtain rs pq1 where a: "scanArticles syn q l pq (articles l) = (rs, pq1)"
      by (cases "scanArticles syn q l pq (articles l)")
    obtain rs' pq2 where s: "scanLaws syn q fs pq1 ls = (rs', pq2)"
      by (cases "scanLaws syn q fs pq1 ls")
    from scanArticles_inv [OF Cons.prems, of q l "articles l"] a
    have 1: "\<forall>x\<in>set rs. articleResultOk pq x" "sameQuery pq pq1" by simp_all
    from 1(2) have wf1: "wellFormedQuery syn pq1" using Cons.prems by (rule sameQuery_wellFormed)
    from Cons.IH [OF wf1] s have ih: "\<forall>x\<in>set rs'. articleResultOk pq1 x" "sameQuery pq1 pq2"
      by simp_all
    from ih(1) 1(2) have 2: "\<forall>x\<in>set rs'. articleResultOk pq x" by (blast intro: articleResultOk_same)
    from False have "scanLaws syn q fs pq (l # ls) = (rs @ rs', pq2)" by (auto simp: a s)
    with 1 2 ih(2) show ?thesis by (auto intro: sameQuery_trans)
  qed
qed

lemma scanPDFs_inv:
  assumes "wellFormedQuery syn pq"
  shows "(\<forall>r\<in>set (fst (scanPDFs md syn cat pq ps)). pdfResultOk pq r)
         \<and> sameQuery pq (snd (scanPDFs md syn cat pq ps))"
  using assms
proof (induction ps arbitrary: pq)
  case Nil
  then show ?case by (simp add: sameQuery_refl)
next
  case (Cons a as)
  obtain r pq1 where p: "processPDF md syn cat pq a = (r, pq1)" by (cases "processPDF md syn cat pq a")
  obtain rs pq2 where s: "scanPDFs md syn cat pq1 as = (rs, pq2)" by (cases "scanPDFs md syn cat pq1 as")
  from p have same1: "sameQuery pq pq1" using processPDF_same [of pq md syn cat a] by simp
  then have wf1: "wellFormedQuery syn pq1" using Cons.prems by (rule sameQuery_wellFormed)
  from Cons.IH [OF wf1] s have ih: "\<forall>x\<in>set rs. pdfResultOk pq1 x" "sameQuery pq1 pq2" by simp_all
  from ih(1) same1 have rs: "\<forall>x\<in>set rs. pdfResultOk pq x" by (blast intro: pdfResultOk_same)
  have r: "pdfResultOk pq x" if "r = Some x" for x
    using processPDF_result [OF Cons.prems, of md cat a x] p that by simp
  from rs r ih(2) same1 show ?case
    by (auto simp: p s split: option.splits intro: sameQuery_trans)
qed

lemma scanCategories_inv:
  assumes "wellFormedQuery syn pq"
  shows "(\<forall>r\<in>set (fst (scanCategories md syn pq cs)). pdfResultOk pq r)
         \<and> sameQuery pq (snd (scanCategories md syn pq cs))"
  using assms
proof (induction cs arbitrary: pq)
  case Nil
  then show ?case by (simp add: sameQuery_refl)
next
  case (Cons c cs)
  obtain cat recs where c: "c = (cat, recs)" by (cases c)
  obtain rs pq1 where a: "scanPDFs md syn cat pq recs = (rs, pq1)"
    by (cases "scanPDFs md syn cat pq recs")
  obtain rs' pq2 where s: "scanCategories md syn pq1 cs = (rs', pq2)"
    by (cases "scanCategories md syn pq1 cs")
  from scanPDFs_inv [OF Cons.prems, of md cat recs] a
  have 1: "\<forall>x\<in>set rs. pdfResultOk pq x" "sameQuery pq pq1" by simp_all
  from 1(2) have wf1: "wellFormedQuery syn pq1" using Cons.prems by (rule sameQuery_wellFormed)
  from Cons.IH [OF wf1] s have ih: "\<forall>x\<in>set rs'. pdfResultOk pq1 x" "sameQuery pq1 pq2"
    by simp_all
  from ih(1) 1(2) have 2: "\<forall>x\<in>set rs'. pdfResultOk pq x" by (blast intro: pdfResultOk_same)
  have "scanCategories md syn pq (c # cs) = (rs @ rs', pq2)" by (simp add: c a s)
  with 1 2 ih(2) show ?case by (auto intro: sameQuery_trans)
qed

lemma splitRegex_nonempty: "splitRegex m piece s \<noteq> []"
  by (induction m piece s rule: splitRegex.induct) (auto split: option.splits)

lemma set_dedup: "set (dedup xs) = set xs"
  by (simp add: dedup_def set_foldl_set_add)

lemma parseSearchQuery_wellFormed: "wellFormedQuery syn (parseSearchQuery syn q)"
  by (auto simp: parseSearchQuery_def Let_def wellFormedQuery_def splitRegex_nonempty
        set_dedup list_all_iff)

lemma sortByScore_sorted: "sorted_wrt (\<lambda>a b. score b \<le> score a) (sortByScore score rs)"
proof -
  have "sorted (map (\<lambda>r. - score r) (sortByScore score rs))"
    unfolding sortByScore_def by (rule sorted_sort_key)
  then show ?thesis by (simp add: sorted_map)
qed

lemma set_sortByScore: "set (sortByScore score rs) = set rs"
  by (simp add: sortByScore_def)

text \<open>
  C7. Every article and every PDF record in the result of a search has a score that is
  not negative, and some term of the parsed query occurs at least once in its search text;
  both result lists are sorted by non-increasing score.
\<close>

theorem search_results_invariants:
  "(\<forall>r\<in>set (res_articles (search e q fs)).
       0 \<le> r_score r
       \<and> (\<exists>t\<in>set (queryTerms (parseSearchQuery (synonyms e) (trim q))).
              0 < countMatches (toLowerCase (r_title r @ '' '' @ r_content r)) (toLowerCase t)))
   \<and> (\<forall>r\<in>set (res_pdfs (search e q fs)).
       0 \<le> p_score r
       \<and> (\<exists>t\<in>set (queryTerms (parseSearchQuery (synonyms e) (trim q))).
              0 < countMatches
                    (toLowerCase (p_title r @ '' '' @ p_fullContent r @ '' ''
                                    @ join '' '' (p_keywords r)))
                    (toLowerCase t)))
   \<and> sorted_wrt (\<lambda>a b. r_score b \<le> r_score a) (res_articles (search e q fs))
   \<and> sorted_wrt (\<lambda>a b. p_score b \<le> p_score a) (res_pdfs (search e q fs))"
proof (cases "\<not> isReady e \<or> q = [] \<or> length (trim q) = 0")
  case True
  then show ?thesis by (simp add: search_def)
next
  case False
  let ?pq = "parseSearchQuery (synonyms e) (trim q)"
  obtain rs pq1 where a: "scanLaws (synonyms e) q fs ?pq (laws e) = (rs, pq1)"
    by (cases "scanLaws (synonyms e) q fs ?pq (laws e)")
  have wf: "wellFormedQuery (synonyms e) ?pq" by (rule parseSearchQuery_wellFormed)
  from scanLaws_inv [OF wf, of q fs "laws e"] a
  have 1: "\<forall>x\<in>set rs. articleResultOk ?pq x" "sameQuery ?pq pq1" by simp_all
  from 1(2) wf have wf1: "wellFormedQuery (synonyms e) pq1" by (rule sameQuery_wellFormed)
  from scanCategories_inv [OF wf1, of "pdfMetadata e" "categoriesOf e"] 1(2)
  have 2: "\<forall>x\<in>set (fst (scanCategories (pdfMetadata e) (synonyms e) pq1 (categoriesOf e))).
              pdfResultOk ?pq x"
    by (blast intro: pdfResultOk_same)
  from False a have s: "search e q fs =
      \<lparr>res_articles = sortByScore r_score rs,
       res_pdfs = sortByScore p_score
          (fst (scanCategories (pdfMetadata e) (synonyms e) pq1 (categoriesOf e)))\<rparr>"
    by (simp add: search_def Let_def searchPDFs_def)
  from 1(1) 2 show ?thesis
    unfolding s
    by (simp add: set_sortByScore sortByScore_sorted articleResultOk_def pdfResultOk_def
          list_ex_iff)
qed

theorem search_results_invariants_witness:
  "map r_score (res_articles (search
      \<lparr>laws = [\<lparr>lawId = ''L1'', lawName = ''Act'', lawType = ''x'',
                 articles = [\<lparr>articleNumber = Some ''1'', title = ''Stopping'',
                               content = ''A braking system is fitted.'', paragraphs = []\<rparr>,
                             \<lparr>articleNumber = Some ''2'', title = ''Brake lamp'',
                               content = ''red'', paragraphs = []\<rparr>]\<rparr>],
        synonyms = [(''brake'', [''braking system''])],
        pdfMetadata = \<lparr>md_details = None, md_appendices = None\<rparr>,
        pdfContent = \<lparr>standards = [], details = [], appendices = [], other = []\<rparr>,
        isReady = True\<rparr>
      ''brake OR lamp'' \<lparr>f_law = True, f_ordinance = True\<rparr>)) = [95, 15]
   \<and> 0 \<le> r_score (hd (res_articles (search
      \<lparr>laws = [\<lparr>lawId = ''L1'', lawName = ''Act'', lawType = ''x'',
                 articles = [\<lparr>articleNumber = Some ''1'', title = ''Stopping'',
                               content = ''A braking system is fitted.'', paragraphs = []\<rparr>,
                             \<lparr>articleNumber = Some ''2'', title = ''Brake lamp'',
                               content = ''red'', paragraphs = []\<rparr>]\<rparr>],
        synonyms = [(''brake'', [''braking system''])],
        pdfMetadata = \<lparr>md_details = None, md_appendices = None\<rparr>,
        pdfContent = \<lparr>standards = [], details = [], appendices = [], other = []\<rparr>,
        isReady = True\<rparr>
      ''brake OR lamp'' \<lparr>f_law = True, f_ordinance = True\<rparr>)))
   \<and> sorted_wrt (\<lambda>a b. r_score b \<le> r_score a) (res_articles (search
      \<lparr>laws = [\<lparr>lawId = ''L1'', lawName = ''Act'', lawType = ''x'',
                 articles = [\<lparr>articleNumber = Some ''1'', title = ''Stopping'',
                               content = ''A braking system is fitted.'', paragraphs = []\<rparr>,
                             \<lparr>articleNumber = Some ''2'', title = ''Brake lamp'',
                               content = ''red'', paragraphs = []\<rparr>]\<rparr>],
        synonyms = [(''brake'', [''braking system''])],
        pdfMetadata = \<lparr>md_details = None, md_appendices = None\<rparr>,
        pdfContent = \<lparr>standards = [], details = [], appendices = [], other = []\<rparr>,
        isReady = True\<rparr>
      ''brake OR lamp'' \<lparr>f_law = True, f_ordinance = True\<rparr>))"
  (is "map r_score (res_articles (search ?e ?q ?fs)) = _ \<and> _ \<and> _")
proof -
  have scores: "map r_score (res_articles (search ?e ?q ?fs)) = [95, 15]"
    by code_simp
  then have "res_articles (search ?e ?q ?fs) \<noteq> []" by auto
  then have "hd (res_articles (search ?e ?q ?fs)) \<in> set (res_articles (search ?e ?q ?fs))"
    by simp
  with search_results_invariants [of ?e ?q ?fs] scores show ?thesis by blast
qed

end
